theory Spec2Isabelle
  imports Main "HOL-Library.Multiset"
begin

section \<open>Go library functions used by jsr311.go\<close>

text \<open>
  Go strings are byte sequences; they are modelled as \<open>string\<close> (lists of 8-bit
  \<open>char\<close>), so \<open>length\<close> is Go's \<open>len\<close>. Patterns are matched one \<open>char\<close>
  at a time, which is what Go's regexp package does on ASCII text; on text beyond ASCII
  Go matches rune by rune, which the matcher below does not follow. Compiling does follow
  Go there: an expression that is not well-formed UTF-8 is refused.
\<close>

definition strings_HasPrefix :: "string \<Rightarrow> string \<Rightarrow> bool" where
  "strings_HasPrefix s p = (take (length p) s = p)"

text \<open>\<open>strings.Split(s, sep)\<close> for a separator of one character: the pieces between
  the separators, a single empty piece for the empty string.\<close>

fun strings_Split :: "string \<Rightarrow> char \<Rightarrow> string list" where
  "strings_Split [] sep = [[]]"
| "strings_Split (c # cs) sep =
     (if c = sep then [] # strings_Split cs sep
      else (case strings_Split cs sep of
              [] \<Rightarrow> [[c]]
            | t # ts \<Rightarrow> (c # t) # ts))"

definition strings_TrimRight :: "string \<Rightarrow> string \<Rightarrow> string" where
  "strings_TrimRight s cutset = rev (dropWhile (\<lambda>c. c \<in> set cutset) (rev s))"

definition backslash :: char where
  "backslash = CHR 0x5C"

definition newline :: char where
  "newline = CHR 0x0A"

text \<open>The characters \<open>regexp.QuoteMeta\<close> escapes: \<open>\.+*?()|[]{}^$\<close>.\<close>

definition specialBytes :: string where
  "specialBytes = backslash # ''.+*?()|[]{}^$''"

definition regexp_QuoteMeta :: "string \<Rightarrow> string" where
  "regexp_QuoteMeta s =
     concat (map (\<lambda>c. if c \<in> set specialBytes then [backslash, c] else [c]) s)"

datatype error = errors_New string | regexp_Error string

subsection \<open>Regular expressions\<close>

text \<open>
  The part of Go's regular expression syntax that \<open>templateToRegularExpression\<close>
  writes: a concatenation of literal characters (plain, or a special character after a
  backslash), of the capture group \<open>([^/]+?)\<close> and of the capture group \<open>(/.*)?\<close>.
  \<open>parse\<close> reads exactly this language; on any other string it answers \<open>None\<close>,
  which stands for "not covered by this model".
\<close>

datatype node =
    Lit char     \<comment> \<open>one literal character\<close>
  | VarGroup     \<comment> \<open>\<open>([^/]+?)\<close>: one or more characters other than \<open>/\<close>, as few as possible, captured\<close>
  | RestGroup    \<comment> \<open>\<open>(/.*)?\<close>: optionally a \<open>/\<close> and as many non-newline characters as possible, captured\<close>

type_synonym Regexp = "node list"

function parse :: "string \<Rightarrow> Regexp option" where
  "parse s =
     (if s = [] then Some []
      else if strings_HasPrefix s ''([^/]+?)'' then map_option ((#) VarGroup) (parse (drop 8 s))
      else if strings_HasPrefix s ''(/.*)?'' then map_option ((#) RestGroup) (parse (drop 6 s))
      else if hd s = backslash then
        (case tl s of
           [] \<Rightarrow> None
         | c # r \<Rightarrow> if c \<in> set specialBytes then map_option ((#) (Lit c)) (parse r) else None)
      else if hd s \<in> set specialBytes then None
      else map_option ((#) (Lit (hd s))) (parse (tl s)))"
  by pat_completeness auto
termination
  by (relation "measure length") (auto simp: neq_Nil_conv)

declare parse.simps [simp del]

text \<open>
  Go's parser reads the literals of an expression rune by rune and rejects the expression
  when a byte sequence is not well-formed UTF-8 (\<open>utf8.DecodeRuneInString\<close> gives
  \<open>RuneError\<close> of width 1). \<open>utf8_ValidString\<close> follows the ranges of Go's
  \<open>unicode/utf8\<close>: the lead bytes \<open>C2..DF\<close>, \<open>E0..EF\<close> and \<open>F0..F4\<close>, with
  the narrower second byte after \<open>E0\<close>, \<open>ED\<close>, \<open>F0\<close> and \<open>F4\<close>.
\<close>

definition continuation :: "char \<Rightarrow> bool" where
  "continuation c = (0x80 \<le> (of_char c :: nat) \<and> (of_char c :: nat) \<le> 0xBF)"

fun utf8_ValidString :: "string \<Rightarrow> bool" where
  "utf8_ValidString [] = True"
| "utf8_ValidString (c # cs) =
     (let b = (of_char c :: nat) in
      if b < 0x80 then utf8_ValidString cs
      else if 0xC2 \<le> b \<and> b \<le> 0xDF then
        (case cs of
           c1 # r \<Rightarrow> continuation c1 \<and> utf8_ValidString r
         | _ \<Rightarrow> False)
      else if 0xE0 \<le> b \<and> b \<le> 0xEF then
        (case cs of
           c1 # c2 # r \<Rightarrow>
             (if b = 0xE0 then 0xA0 \<le> (of_char c1 :: nat) \<and> (of_char c1 :: nat) \<le> 0xBF
              else if b = 0xED then 0x80 \<le> (of_char c1 :: nat) \<and> (of_char c1 :: nat) \<le> 0x9F
              else continuation c1)
             \<and> continuation c2 \<and> utf8_ValidString r
         | _ \<Rightarrow> False)
      else if 0xF0 \<le> b \<and> b \<le> 0xF4 then
        (case cs of
           c1 # c2 # c3 # r \<Rightarrow>
             (if b = 0xF0 then 0x90 \<le> (of_char c1 :: nat) \<and> (of_char c1 :: nat) \<le> 0xBF
              else if b = 0xF4 then 0x80 \<le> (of_char c1 :: nat) \<and> (of_char c1 :: nat) \<le> 0x8F
              else continuation c1)
             \<and> continuation c2 \<and> continuation c3 \<and> utf8_ValidString r
         | _ \<Rightarrow> False)
      else False)"

text \<open>\<open>regexp.Compile\<close>: an error for an expression that is not well-formed UTF-8, as
  in Go, and for one outside the language above; the compiled pattern otherwise. The bound
  that later Go releases put on the size of an expression is not modelled.\<close>

definition regexp_Compile :: "string \<Rightarrow> error + Regexp" where
  "regexp_Compile expr =
     (if \<not> utf8_ValidString expr then Inl (regexp_Error expr)
      else (case parse expr of None \<Rightarrow> Inl (regexp_Error expr) | Some re \<Rightarrow> Inr re))"

definition NumSubexp :: "Regexp \<Rightarrow> nat" where
  "NumSubexp re = length (filter (\<lambda>n. n = VarGroup \<or> n = RestGroup) re)"

text \<open>
  Matching is leftmost-first, as in Go (and Perl): a backtracking search that tries the
  preferred alternative first. A successful match at the current position gives the texts
  of the capture groups, in order, and the input left after the match. A group that took
  no part in the match has the empty text, as in \<open>FindStringSubmatch\<close>.
\<close>

type_synonym matched = "(string list \<times> string) option"

fun lazy_plus :: "(string \<Rightarrow> matched) \<Rightarrow> string \<Rightarrow> string \<Rightarrow> matched" where
  "lazy_plus k acc [] = None"
| "lazy_plus k acc (c # cs) =
     (if c = CHR ''/'' then None
      else (case k cs of
              Some (caps, rest) \<Rightarrow> Some ((acc @ [c]) # caps, rest)
            | None \<Rightarrow> lazy_plus k (acc @ [c]) cs))"

fun greedy_dots :: "(string \<Rightarrow> string \<Rightarrow> matched) \<Rightarrow> string \<Rightarrow> string \<Rightarrow> matched" where
  "greedy_dots k acc [] = k acc []"
| "greedy_dots k acc (c # cs) =
     (if c = newline then k acc (c # cs)
      else (case greedy_dots k (acc @ [c]) cs of
              Some m \<Rightarrow> Some m
            | None \<Rightarrow> k acc (c # cs)))"

definition with_capture :: "string \<Rightarrow> matched \<Rightarrow> matched" where
  "with_capture cap m = map_option (\<lambda>(caps, rest). (cap # caps, rest)) m"

definition rest_group :: "(string \<Rightarrow> matched) \<Rightarrow> string \<Rightarrow> matched" where
  "rest_group k s =
     (case (case s of
              [] \<Rightarrow> None
            | c # cs \<Rightarrow>
                if c = CHR ''/''
                then greedy_dots (\<lambda>dots rest. with_capture (CHR ''/'' # dots) (k rest)) [] cs
                else None) of
        Some m \<Rightarrow> Some m
      | None \<Rightarrow> with_capture [] (k s))"

primrec match_here :: "Regexp \<Rightarrow> string \<Rightarrow> matched" where
  "match_here [] = (\<lambda>s. Some ([], s))"
| "match_here (n # ns) =
     (case n of
        Lit c \<Rightarrow> (\<lambda>s. case s of [] \<Rightarrow> None | x # xs \<Rightarrow> if x = c then match_here ns xs else None)
      | VarGroup \<Rightarrow> lazy_plus (match_here ns) []
      | RestGroup \<Rightarrow> rest_group (match_here ns))"

text \<open>\<open>re.FindStringSubmatch(s)\<close>: the leftmost match, as the matched text followed by
  the texts of the groups; \<open>None\<close> is Go's \<open>nil\<close>.\<close>

fun FindStringSubmatch :: "Regexp \<Rightarrow> string \<Rightarrow> string list option" where
  "FindStringSubmatch re [] =
     (case match_here re [] of
        Some (caps, rest) \<Rightarrow> Some ([] # caps)
      | None \<Rightarrow> None)"
| "FindStringSubmatch re (c # cs) =
     (case match_here re (c # cs) of
        Some (caps, rest) \<Rightarrow> Some (take (length (c # cs) - length rest) (c # cs) # caps)
      | None \<Rightarrow> FindStringSubmatch re cs)"

section \<open>The template compiler\<close>

text \<open>The body of the loop of \<open>templateToRegularExpression\<close>: the state is the buffer,
  \<open>literalCount\<close> and \<open>varCount\<close>.\<close>

definition template_token :: "string \<times> nat \<times> nat \<Rightarrow> string \<Rightarrow> string \<times> nat \<times> nat" where
  "template_token st each =
     (case st of (buffer, literalCount, varCount) \<Rightarrow>
        if each = [] then (buffer, literalCount, varCount)
        else if strings_HasPrefix each ''{''
        then (buffer @ ''/'' @ ''([^/]+?)'', literalCount, varCount + 1)
        else (buffer @ ''/'' @ regexp_QuoteMeta each, literalCount + length each, varCount))"

definition templateToRegularExpression :: "string \<Rightarrow> string \<times> nat \<times> nat" where
  "templateToRegularExpression template =
     (case foldl template_token ([], 0, 0) (strings_Split template (CHR ''/'')) of
        (buffer, literalCount, varCount) \<Rightarrow>
          (strings_TrimRight buffer ''/'' @ ''(/.*)?'', literalCount, varCount))"

section \<open>Routes, dispatchers and candidates\<close>

text \<open>Modelled from the spec: the types \<open>Route\<close> and \<open>Dispatcher\<close>, which are
  declared outside jsr311.go. A route is a handle exposing a relative path template
  (\<open>relativePath\<close>; \<open>Path\<close> is what the log message prints); a dispatcher is a handle
  exposing a root template (\<open>RootPath()\<close>) and a list of routes (\<open>Routes()\<close>).\<close>

record Route =
  Path :: string
  relativePath :: string

record Dispatcher =
  RootPath :: string
  Routes :: "Route list"

record routeCandidate =
  route :: Route
  regexpression :: string
  matchesCount :: nat
  literalCount :: nat
  nonDefaultCount :: nat

record dispatcherCandidate =
  dispatcher :: Dispatcher
  finalMatch :: string
  matchesCount :: nat
  literalCount :: nat
  nonDefaultCount :: nat

text \<open>\<open>Less(j, i)\<close> of \<open>sortableRouteCandidates\<close>; the receiver is its slice of
  candidates.\<close>

definition sortableRouteCandidates_Less :: "routeCandidate list \<Rightarrow> nat \<Rightarrow> nat \<Rightarrow> bool" where
  "sortableRouteCandidates_Less candidates j i =
     (let ci = candidates ! i; cj = candidates ! j in
      if routeCandidate.matchesCount ci < routeCandidate.matchesCount cj then True
      else if routeCandidate.matchesCount ci > routeCandidate.matchesCount cj then False
      else if routeCandidate.literalCount ci < routeCandidate.literalCount cj then True
      else if routeCandidate.literalCount ci > routeCandidate.literalCount cj then False
      else routeCandidate.nonDefaultCount ci < routeCandidate.nonDefaultCount cj)"

text \<open>\<open>Less(j, i)\<close> of \<open>sortableCandidates\<close>.\<close>

definition sortableCandidates_Less :: "dispatcherCandidate list \<Rightarrow> nat \<Rightarrow> nat \<Rightarrow> bool" where
  "sortableCandidates_Less candidates j i =
     (let ci = candidates ! i; cj = candidates ! j in
      if dispatcherCandidate.matchesCount ci < dispatcherCandidate.matchesCount cj then True
      else if dispatcherCandidate.matchesCount ci > dispatcherCandidate.matchesCount cj then False
      else if dispatcherCandidate.literalCount ci < dispatcherCandidate.literalCount cj then True
      else if dispatcherCandidate.literalCount ci > dispatcherCandidate.literalCount cj then False
      else dispatcherCandidate.nonDefaultCount ci < dispatcherCandidate.nonDefaultCount cj)"

subsection \<open>sort.Sort\<close>

text \<open>
  \<open>sort.Sort(data)\<close> reorders \<open>data\<close> so that no element must sort before an earlier
  one, where \<open>Less(q, p)\<close> says that the element at \<open>q\<close> must sort before the one at
  \<open>p\<close>; the sort is not stable, and the algorithm depends on the Go release. The
  selectors therefore take the sorting function as an argument, and
  \<open>sort_Sort_spec\<close> is what the library promises of it. \<open>insertionSort\<close> is the
  algorithm the library runs on short slices.
\<close>

definition sort_Sort_spec :: "('a list \<Rightarrow> nat \<Rightarrow> nat \<Rightarrow> bool) \<Rightarrow> ('a list \<Rightarrow> 'a list) \<Rightarrow> bool" where
  "sort_Sort_spec Less srt =
     (\<forall>data. mset (srt data) = mset data \<and>
        (\<forall>p q. p < q \<and> q < length data \<longrightarrow> \<not> Less (srt data) q p))"

fun insert_left :: "('a \<Rightarrow> 'a \<Rightarrow> bool) \<Rightarrow> 'a \<Rightarrow> 'a list \<Rightarrow> 'a list" where
  "insert_left before x [] = [x]"
| "insert_left before x (y # ys) =
     (if before x y then y # insert_left before x ys else x # y # ys)"

text \<open>The elements are moved left one at a time, past every neighbour they must sort
  before; the part sorted so far is kept in reverse.\<close>

definition insertionSort :: "('a list \<Rightarrow> nat \<Rightarrow> nat \<Rightarrow> bool) \<Rightarrow> 'a list \<Rightarrow> 'a list" where
  "insertionSort Less data =
     rev (foldl (\<lambda>sorted x. insert_left (\<lambda>a b. Less [a, b] 0 1) x sorted) [] data)"

section \<open>The selectors\<close>

text \<open>The state of the loop of \<open>selectRoutes\<close>: \<open>filtered.candidates\<close>, and the
  arguments of the calls of \<open>log.Printf\<close> so far.\<close>

definition selectRoutes_each ::
  "string \<Rightarrow> routeCandidate list \<times> (string \<times> error) list \<Rightarrow> Route
     \<Rightarrow> routeCandidate list \<times> (string \<times> error) list" where
  "selectRoutes_each final st each =
     (case st of (candidates, logged) \<Rightarrow>
      (case templateToRegularExpression (relativePath each) of
         (expression, litCount, varCount) \<Rightarrow>
           (case regexp_Compile expression of
              Inl err \<Rightarrow> (candidates, logged @ [(Path each, err)])
            | Inr compiled \<Rightarrow>
                (case FindStringSubmatch compiled final of
                   None \<Rightarrow> (candidates, logged)
                 | Some matches \<Rightarrow>
                     (let final' = matches ! (length matches - 1) in
                      if final' = [] \<or> final' = ''/''
                      then (candidates @
                              [\<lparr>route = each, regexpression = expression,
                                matchesCount = length matches, literalCount = litCount,
                                nonDefaultCount = varCount\<rparr>], logged)
                      else (candidates, logged))))))"

definition selectRoutes_loop ::
  "Dispatcher \<Rightarrow> string \<Rightarrow> routeCandidate list \<times> (string \<times> error) list" where
  "selectRoutes_loop d final =
     foldl (selectRoutes_each final) ([], []) (Routes d)"

definition selectRoutes ::
  "(routeCandidate list \<Rightarrow> routeCandidate list) \<Rightarrow> Dispatcher \<Rightarrow> string \<Rightarrow> error + Route list" where
  "selectRoutes sort_Sort d final =
     (if final = [] \<or> final = ''/'' then Inr (Routes d)
      else
        (let filtered = fst (selectRoutes_loop d final) in
         if length filtered = 0 then Inl (errors_New ''not found'')
         else
           (let sorted = sort_Sort filtered;
                rmatch = regexpression (sorted ! 0)
            in Inr (map route (filter (\<lambda>each. regexpression each = rmatch) sorted)))))"

text \<open>What \<open>selectRoutes\<close> writes to the log.\<close>

definition selectRoutes_log :: "Dispatcher \<Rightarrow> string \<Rightarrow> (string \<times> error) list" where
  "selectRoutes_log d final =
     (if final = [] \<or> final = ''/'' then [] else snd (selectRoutes_loop d final))"

definition detectDispatcher_each ::
  "string \<Rightarrow> dispatcherCandidate list \<times> (string \<times> error) list \<Rightarrow> Dispatcher
     \<Rightarrow> dispatcherCandidate list \<times> (string \<times> error) list" where
  "detectDispatcher_each requestPath st each =
     (case st of (candidates, logged) \<Rightarrow>
      (case templateToRegularExpression (RootPath each) of
         (expression, litCount, varCount) \<Rightarrow>
           (case regexp_Compile expression of
              Inl err \<Rightarrow> (candidates, logged @ [(RootPath each, err)])
            | Inr compiled \<Rightarrow>
                (case FindStringSubmatch compiled requestPath of
                   None \<Rightarrow> (candidates, logged)
                 | Some matches \<Rightarrow>
                     (candidates @
                        [\<lparr>dispatcher = each, finalMatch = matches ! (length matches - 1),
                          matchesCount = length matches, literalCount = litCount,
                          nonDefaultCount = varCount\<rparr>], logged)))))"

definition detectDispatcher_loop ::
  "string \<Rightarrow> Dispatcher list \<Rightarrow> dispatcherCandidate list \<times> (string \<times> error) list" where
  "detectDispatcher_loop requestPath dispatchers =
     foldl (detectDispatcher_each requestPath) ([], []) dispatchers"

definition detectDispatcher ::
  "(dispatcherCandidate list \<Rightarrow> dispatcherCandidate list) \<Rightarrow> string \<Rightarrow> Dispatcher list
     \<Rightarrow> error + (Dispatcher \<times> string)" where
  "detectDispatcher sort_Sort requestPath dispatchers =
     (let filtered = fst (detectDispatcher_loop requestPath dispatchers) in
      if length filtered = 0 then Inl (errors_New ''not found'')
      else
        (let sorted = sort_Sort filtered
         in Inr (dispatcher (sorted ! 0), finalMatch (sorted ! 0))))"

definition detectDispatcher_log :: "string \<Rightarrow> Dispatcher list \<Rightarrow> (string \<times> error) list" where
  "detectDispatcher_log requestPath dispatchers = snd (detectDispatcher_loop requestPath dispatchers)"

section \<open>Auxiliary definitions for the proofs\<close>

text \<open>
  The non-empty segments of a template; what the compiler writes for one segment, and the
  pattern nodes it stands for; the compiled pattern of a template; and the candidates and
  the log entries that one route or dispatcher contributes to the loop of its selector.
\<close>

definition segments :: "string \<Rightarrow> string list" where
  "segments template = filter (\<lambda>each. each \<noteq> []) (strings_Split template (CHR ''/''))"

definition segment_text :: "string \<Rightarrow> string" where
  "segment_text each =
     ''/'' @ (if strings_HasPrefix each ''{'' then ''([^/]+?)'' else regexp_QuoteMeta each)"

definition segment_nodes :: "string \<Rightarrow> node list" where
  "segment_nodes each =
     Lit (CHR ''/'') # (if strings_HasPrefix each ''{'' then [VarGroup] else map Lit each)"

definition template_nodes :: "string \<Rightarrow> Regexp" where
  "template_nodes t = concat (map segment_nodes (segments t)) @ [RestGroup]"

definition route_candidates :: "string \<Rightarrow> Route \<Rightarrow> routeCandidate list" where
  "route_candidates final each =
     (if \<not> utf8_ValidString (fst (templateToRegularExpression (relativePath each))) then []
      else
     (case FindStringSubmatch (template_nodes (relativePath each)) final of
        None \<Rightarrow> []
      | Some matches \<Rightarrow>
          if last matches = [] \<or> last matches = ''/''
          then [\<lparr>route = each,
                 regexpression = fst (templateToRegularExpression (relativePath each)),
                 matchesCount = length matches,
                 literalCount = fst (snd (templateToRegularExpression (relativePath each))),
                 nonDefaultCount = snd (snd (templateToRegularExpression (relativePath each)))\<rparr>]
          else []))"

definition route_logged :: "Route \<Rightarrow> (string \<times> error) list" where
  "route_logged each =
     (if \<not> utf8_ValidString (fst (templateToRegularExpression (relativePath each)))
      then [(Path each, regexp_Error (fst (templateToRegularExpression (relativePath each))))]
      else [])"

definition dispatcher_candidates :: "string \<Rightarrow> Dispatcher \<Rightarrow> dispatcherCandidate list" where
  "dispatcher_candidates requestPath each =
     (if \<not> utf8_ValidString (fst (templateToRegularExpression (RootPath each))) then []
      else
     (case FindStringSubmatch (template_nodes (RootPath each)) requestPath of
        None \<Rightarrow> []
      | Some matches \<Rightarrow>
          [\<lparr>dispatcher = each,
            finalMatch = last matches,
            matchesCount = length matches,
            literalCount = fst (snd (templateToRegularExpression (RootPath each))),
            nonDefaultCount = snd (snd (templateToRegularExpression (RootPath each)))\<rparr>]))"

definition dispatcher_logged :: "Dispatcher \<Rightarrow> (string \<times> error) list" where
  "dispatcher_logged each =
     (if \<not> utf8_ValidString (fst (templateToRegularExpression (RootPath each)))
      then [(RootPath each, regexp_Error (fst (templateToRegularExpression (RootPath each))))]
      else [])"

text \<open>Routes and dispatchers for the examples.\<close>

definition example_route :: "string \<Rightarrow> Route" where
  "example_route template = \<lparr>Path = template, relativePath = template\<rparr>"

definition example_dispatcher :: "string \<Rightarrow> string list \<Rightarrow> Dispatcher" where
  "example_dispatcher root templates = \<lparr>RootPath = root, Routes = map example_route templates\<rparr>"

definition example_routeCandidate :: "string \<Rightarrow> nat \<Rightarrow> nat \<Rightarrow> nat \<Rightarrow> routeCandidate" where
  "example_routeCandidate template m l v =
     \<lparr>route = example_route template,
      regexpression = fst (templateToRegularExpression template),
      matchesCount = m, literalCount = l, nonDefaultCount = v\<rparr>"

definition example_dispatcherCandidate :: "string \<Rightarrow> nat \<Rightarrow> nat \<Rightarrow> nat \<Rightarrow> dispatcherCandidate" where
  "example_dispatcherCandidate template m l v =
     \<lparr>dispatcher = example_dispatcher template [],
      finalMatch = [],
      matchesCount = m, literalCount = l, nonDefaultCount = v\<rparr>"

section \<open>Lemmas\<close>

subsection \<open>Splitting the template\<close>

lemma Split_not_Nil: "strings_Split s c \<noteq> []"
  by (induction s) (auto split: list.splits)

lemma Split_no_sep: "t \<in> set (strings_Split s c) \<Longrightarrow> c \<notin> set t"
proof (induction s arbitrary: t)
  case Nil
  then show ?case by simp
next
  case (Cons x xs)
  show ?case
  proof (cases "x = c")
    case True
    with Cons show ?thesis by auto
  next
    case False
    obtain u us where us: "strings_Split xs c = u # us"
      using Split_not_Nil[of xs c] by (cases "strings_Split xs c") auto
    with False Cons.prems have "t = x # u \<or> t \<in> set us" by auto
    then show ?thesis
    proof
      assume "t = x # u"
      moreover have "c \<notin> set u" using Cons.IH[of u] us by simp
      ultimately show ?thesis using False by auto
    next
      assume "t \<in> set us"
      then show ?thesis using Cons.IH[of t] us by simp
    qed
  qed
qed

lemma Split_lengths:
  "sum_list (map length (strings_Split s c)) = length (filter (\<lambda>x. x \<noteq> c) s)"
proof (induction s)
  case Nil
  then show ?case by simp
next
  case (Cons x xs)
  obtain u us where us: "strings_Split xs c = u # us"
    using Split_not_Nil[of xs c] by (cases "strings_Split xs c") auto
  with Cons show ?case by auto
qed

lemma segments_lengths:
  "sum_list (map length (segments t)) = length (filter (\<lambda>x. x \<noteq> CHR ''/'') t)"
proof -
  have "sum_list (map length (filter (\<lambda>each. each \<noteq> []) xs)) = sum_list (map length xs)"
    for xs :: "string list"
    by (induction xs) auto
  then show ?thesis by (simp add: segments_def Split_lengths)
qed

lemma segments_no_slash: "each \<in> set (segments t) \<Longrightarrow> CHR ''/'' \<notin> set each \<and> each \<noteq> []"
  by (auto simp: segments_def dest: Split_no_sep)

subsection \<open>What the template compiler writes\<close>

lemma foldl_template_token:
  "foldl template_token (buffer, lc, vc) tokens =
     (buffer @ concat (map segment_text (filter (\<lambda>each. each \<noteq> []) tokens)),
      lc + sum_list (map length (filter (\<lambda>each. \<not> strings_HasPrefix each ''{'')
                                   (filter (\<lambda>each. each \<noteq> []) tokens))),
      vc + length (filter (\<lambda>each. strings_HasPrefix each ''{'')
                     (filter (\<lambda>each. each \<noteq> []) tokens)))"
  by (induction tokens arbitrary: buffer lc vc)
     (simp_all add: template_token_def segment_text_def)

lemma TrimRight_keep:
  "s = [] \<or> last s \<noteq> CHR ''/'' \<Longrightarrow> strings_TrimRight s ''/'' = s"
  by (cases s rule: rev_cases) (auto simp: strings_TrimRight_def)

lemma QuoteMeta_last:
  "each \<noteq> [] \<Longrightarrow> regexp_QuoteMeta each \<noteq> [] \<and> last (regexp_QuoteMeta each) = last each"
  by (cases each rule: rev_cases) (auto simp: regexp_QuoteMeta_def)

lemma segment_text_last:
  assumes "each \<noteq> []" "CHR ''/'' \<notin> set each"
  shows "segment_text each \<noteq> [] \<and> last (segment_text each) \<noteq> CHR ''/''"
proof (cases "strings_HasPrefix each ''{''")
  case True
  then show ?thesis by (simp add: segment_text_def)
next
  case False
  have "last each \<in> set each" using assms(1) by simp
  with assms(2) have "last each \<noteq> CHR ''/''" by metis
  with False QuoteMeta_last[OF assms(1)] show ?thesis by (simp add: segment_text_def)
qed

lemma buffer_last:
  assumes "\<And>each. each \<in> set segs \<Longrightarrow> CHR ''/'' \<notin> set each \<and> each \<noteq> []"
  shows "concat (map segment_text segs) = [] \<or> last (concat (map segment_text segs)) \<noteq> CHR ''/''"
  using assms
proof (induction segs rule: rev_induct)
  case Nil
  then show ?case by simp
next
  case (snoc x xs)
  have "segment_text x \<noteq> [] \<and> last (segment_text x) \<noteq> CHR ''/''"
    using snoc.prems[of x] by (simp add: segment_text_last)
  then show ?case by simp
qed

lemma templateToRegularExpression_eq:
  "templateToRegularExpression t =
     (concat (map segment_text (segments t)) @ ''(/.*)?'',
      sum_list (map length (filter (\<lambda>each. \<not> strings_HasPrefix each ''{'') (segments t))),
      length (filter (\<lambda>each. strings_HasPrefix each ''{'') (segments t)))"
proof -
  have "strings_TrimRight (concat (map segment_text (segments t))) ''/''
          = concat (map segment_text (segments t))"
    by (rule TrimRight_keep, rule buffer_last) (rule segments_no_slash)
  then show ?thesis
    by (simp add: templateToRegularExpression_def foldl_template_token segments_def)
qed

subsection \<open>Every written expression is in the pattern language\<close>

lemma parse_Nil: "parse [] = Some []"
  by (simp add: parse.simps)

lemma parse_RestGroup: "parse (''(/.*)?'' @ s) = map_option ((#) RestGroup) (parse s)"
  by (subst parse.simps) (simp add: strings_HasPrefix_def)

lemma parse_VarGroup: "parse (''([^/]+?)'' @ s) = map_option ((#) VarGroup) (parse s)"
  by (subst parse.simps) (simp add: strings_HasPrefix_def)

lemma parse_RestGroup_Cons:
  "parse (CHR ''('' # CHR ''/'' # CHR ''.'' # CHR ''*'' # CHR '')'' # CHR ''?'' # s)
     = map_option ((#) RestGroup) (parse s)"
  using parse_RestGroup[of s] by simp

lemma parse_VarGroup_Cons:
  "parse (CHR ''('' # CHR ''['' # CHR ''^'' # CHR ''/'' # CHR '']'' # CHR ''+'' # CHR ''?'' # CHR '')'' # s)
     = map_option ((#) VarGroup) (parse s)"
  using parse_VarGroup[of s] by simp

lemma parse_slash: "parse (CHR ''/'' # s) = map_option ((#) (Lit (CHR ''/''))) (parse s)"
  by (subst parse.simps) (simp add: strings_HasPrefix_def backslash_def specialBytes_def)

lemma parse_escaped:
  "c \<in> set specialBytes \<Longrightarrow> parse (backslash # c # s) = map_option ((#) (Lit c)) (parse s)"
  by (subst parse.simps) (simp add: strings_HasPrefix_def backslash_def)

lemma parse_plain:
  "c \<notin> set specialBytes \<Longrightarrow> parse (c # s) = map_option ((#) (Lit c)) (parse s)"
  by (subst parse.simps) (auto simp: strings_HasPrefix_def backslash_def specialBytes_def)

lemma parse_QuoteMeta:
  "parse (regexp_QuoteMeta each @ s) = map_option ((@) (map Lit each)) (parse s)"
proof (induction each)
  case Nil
  then show ?case by (simp add: regexp_QuoteMeta_def option.map_ident)
next
  case (Cons c cs)
  have IH: "parse (regexp_QuoteMeta cs @ s) = map_option ((@) (map Lit cs)) (parse s)"
    by (rule Cons.IH)
  show ?case
  proof (cases "c \<in> set specialBytes")
    case True
    have "regexp_QuoteMeta (c # cs) @ s = backslash # c # (regexp_QuoteMeta cs @ s)"
      using True by (simp add: regexp_QuoteMeta_def)
    then show ?thesis
      using True IH by (simp add: parse_escaped option.map_comp comp_def)
  next
    case False
    have "regexp_QuoteMeta (c # cs) @ s = c # (regexp_QuoteMeta cs @ s)"
      using False by (simp add: regexp_QuoteMeta_def)
    then show ?thesis
      using False IH by (simp add: parse_plain option.map_comp comp_def)
  qed
qed

lemma parse_segment_text:
  "parse (segment_text each @ s) = map_option ((@) (segment_nodes each)) (parse s)"
proof (cases "strings_HasPrefix each ''{''")
  case True
  have "segment_text each @ s = CHR ''/'' # (''([^/]+?)'' @ s)"
    using True by (simp add: segment_text_def)
  then show ?thesis
    using True by (cases "parse s") (simp_all add: parse_slash parse_VarGroup_Cons segment_nodes_def)
next
  case False
  have "segment_text each @ s = CHR ''/'' # (regexp_QuoteMeta each @ s)"
    using False by (simp add: segment_text_def)
  then show ?thesis
    using False by (cases "parse s") (simp_all add: parse_slash parse_QuoteMeta segment_nodes_def)
qed

lemma parse_segments:
  "parse (concat (map segment_text segs) @ s)
     = map_option ((@) (concat (map segment_nodes segs))) (parse s)"
proof (induction segs)
  case Nil
  then show ?case by (simp add: option.map_ident)
next
  case (Cons x xs)
  then show ?case by (simp add: parse_segment_text option.map_comp comp_def)
qed

lemma parse_template:
  "parse (fst (templateToRegularExpression t)) = Some (template_nodes t)"
proof -
  have "parse (''(/.*)?'' @ []) = Some [RestGroup]"
    by (simp only: parse_RestGroup parse_Nil) simp
  then have "parse (concat (map segment_text (segments t)) @ ''(/.*)?'') = Some (template_nodes t)"
    by (simp add: parse_segments template_nodes_def)
  then show ?thesis
    by (simp add: templateToRegularExpression_eq)
qed

text \<open>The expression of a template compiles exactly when it is well-formed UTF-8.\<close>

lemma Compile_template_cases:
  "regexp_Compile (fst (templateToRegularExpression t))
     = (if utf8_ValidString (fst (templateToRegularExpression t)) then Inr (template_nodes t)
        else Inl (regexp_Error (fst (templateToRegularExpression t))))"
  by (simp add: regexp_Compile_def parse_template)

lemma Compile_template:
  "utf8_ValidString (fst (templateToRegularExpression t))
     \<Longrightarrow> regexp_Compile (fst (templateToRegularExpression t)) = Inr (template_nodes t)"
  by (simp add: Compile_template_cases)

lemma Compile_template_invalid:
  "\<not> utf8_ValidString (fst (templateToRegularExpression t))
     \<Longrightarrow> regexp_Compile (fst (templateToRegularExpression t))
           = Inl (regexp_Error (fst (templateToRegularExpression t)))"
  by (simp add: Compile_template_cases)

lemma Compile_template_Inr:
  "regexp_Compile (fst (templateToRegularExpression t)) = Inr compiled
     \<longleftrightarrow> utf8_ValidString (fst (templateToRegularExpression t)) \<and> compiled = template_nodes t"
  by (auto simp: Compile_template_cases)

lemma Compile_template_Inl:
  "regexp_Compile (fst (templateToRegularExpression t)) = Inl err
     \<longleftrightarrow> \<not> utf8_ValidString (fst (templateToRegularExpression t))
         \<and> err = regexp_Error (fst (templateToRegularExpression t))"
  by (auto simp: Compile_template_cases)

subsection \<open>Capture groups\<close>

lemma NumSubexp_append: "NumSubexp (xs @ ys) = NumSubexp xs + NumSubexp ys"
  by (simp add: NumSubexp_def)

lemma NumSubexp_segment_nodes:
  "NumSubexp (segment_nodes each) = (if strings_HasPrefix each ''{'' then 1 else 0)"
  by (simp add: NumSubexp_def segment_nodes_def filter_map comp_def)

lemma NumSubexp_segments:
  "NumSubexp (concat (map segment_nodes segs)) = length (filter (\<lambda>each. strings_HasPrefix each ''{'') segs)"
  by (induction segs) (simp_all add: NumSubexp_append NumSubexp_segment_nodes, simp add: NumSubexp_def)

lemma NumSubexp_template:
  "NumSubexp (template_nodes t) = snd (snd (templateToRegularExpression t)) + 1"
  by (simp add: template_nodes_def NumSubexp_append NumSubexp_segments templateToRegularExpression_eq)
     (simp add: NumSubexp_def)

text \<open>A match gives one text for each capture group.\<close>

lemma lazy_plus_length:
  assumes "\<And>s caps rest. k s = Some (caps, rest) \<Longrightarrow> length caps = n"
  shows "lazy_plus k acc s = Some (caps, rest) \<Longrightarrow> length caps = Suc n"
proof (induction s arbitrary: acc)
  case Nil
  then show ?case by simp
next
  case (Cons c cs)
  then show ?case using assms
    by (auto split: if_splits option.splits)
qed

lemma greedy_dots_length:
  assumes "\<And>acc s caps rest. k acc s = Some (caps, rest) \<Longrightarrow> length caps = n"
  shows "greedy_dots k acc s = Some (caps, rest) \<Longrightarrow> length caps = n"
proof (induction s arbitrary: acc)
  case Nil
  then show ?case using assms by simp
next
  case (Cons c cs)
  then show ?case using assms
    by (auto split: if_splits option.splits)
qed

lemma rest_group_length:
  assumes k: "\<And>s caps rest. k s = Some (caps, rest) \<Longrightarrow> length caps = n"
    and m: "rest_group k s = Some (caps, rest)"
  shows "length caps = Suc n"
proof -
  have wc: "with_capture cap (k r) = Some (caps', rest') \<Longrightarrow> length caps' = Suc n"
    for cap r caps' rest'
    using k by (auto simp: with_capture_def)
  have gd: "greedy_dots (\<lambda>dots rest. with_capture (CHR ''/'' # dots) (k rest)) acc cs = Some (caps', rest')
      \<Longrightarrow> length caps' = Suc n" for acc cs caps' rest'
    by (rule greedy_dots_length[where k = "\<lambda>dots rest. with_capture (CHR ''/'' # dots) (k rest)"])
       (rule wc)
  from m show ?thesis
    unfolding rest_group_def
    by (auto split: list.splits if_splits option.splits dest: gd wc)
qed

lemma match_here_length:
  "match_here re s = Some (caps, rest) \<Longrightarrow> length caps = NumSubexp re"
proof (induction re arbitrary: s caps rest)
  case Nil
  then show ?case by (simp add: NumSubexp_def)
next
  case (Cons n ns)
  have IH: "\<And>s caps rest. match_here ns s = Some (caps, rest) \<Longrightarrow> length caps = NumSubexp ns"
    by (rule Cons.IH)
  show ?case
  proof (cases n)
    case (Lit c)
    with Cons.prems IH show ?thesis
      by (auto simp: NumSubexp_def split: list.splits if_splits)
  next
    case VarGroup
    have "length caps = Suc (NumSubexp ns)"
    proof (rule lazy_plus_length[where k = "match_here ns" and n = "NumSubexp ns"])
      show "match_here ns s' = Some (caps', rest') \<Longrightarrow> length caps' = NumSubexp ns"
        for s' caps' rest' by (rule Cons.IH)
      show "lazy_plus (match_here ns) [] s = Some (caps, rest)"
        using Cons.prems VarGroup by simp
    qed
    with VarGroup show ?thesis by (simp add: NumSubexp_def)
  next
    case RestGroup
    have "length caps = Suc (NumSubexp ns)"
    proof (rule rest_group_length[where k = "match_here ns" and n = "NumSubexp ns"])
      show "match_here ns s' = Some (caps', rest') \<Longrightarrow> length caps' = NumSubexp ns"
        for s' caps' rest' by (rule Cons.IH)
      show "rest_group (match_here ns) s = Some (caps, rest)"
        using Cons.prems RestGroup by simp
    qed
    with RestGroup show ?thesis by (simp add: NumSubexp_def)
  qed
qed

lemma FindStringSubmatch_length:
  "FindStringSubmatch re s = Some matches \<Longrightarrow> length matches = NumSubexp re + 1"
  by (induction s) (auto split: option.splits dest: match_here_length)

subsection \<open>Insertion sort keeps the promise of sort.Sort\<close>

lemma mset_insert_left: "mset (insert_left B x ys) = add_mset x (mset ys)"
  by (induction ys) simp_all

lemma set_insert_left: "set (insert_left B x ys) = insert x (set ys)"
  by (induction ys) auto

lemma mset_foldl_insert_left:
  "mset (foldl (\<lambda>sorted x. insert_left B x sorted) acc xs) = mset acc + mset xs"
  by (induction xs arbitrary: acc) (simp_all add: mset_insert_left)

lemma sorted_insert_left:
  assumes asym: "\<And>a b. B a b \<Longrightarrow> \<not> B b a"
    and nt: "\<And>a b c. \<not> B a b \<Longrightarrow> \<not> B b c \<Longrightarrow> \<not> B a c"
  shows "sorted_wrt (\<lambda>a b. \<not> B a b) ys \<Longrightarrow> sorted_wrt (\<lambda>a b. \<not> B a b) (insert_left B x ys)"
proof (induction ys)
  case Nil
  then show ?case by simp
next
  case (Cons y ys)
  show ?case
  proof (cases "B x y")
    case True
    then have "\<not> B y x" by (rule asym)
    with True Cons show ?thesis by (simp add: set_insert_left)
  next
    case False
    have "\<not> B x z" if "z \<in> set ys" for z
    proof -
      from Cons.prems that have "\<not> B y z" by simp
      with False show ?thesis by (rule nt)
    qed
    with False Cons.prems show ?thesis by simp
  qed
qed

lemma sorted_foldl_insert_left:
  assumes asym: "\<And>a b. B a b \<Longrightarrow> \<not> B b a"
    and nt: "\<And>a b c. \<not> B a b \<Longrightarrow> \<not> B b c \<Longrightarrow> \<not> B a c"
  shows "sorted_wrt (\<lambda>a b. \<not> B a b) acc
     \<Longrightarrow> sorted_wrt (\<lambda>a b. \<not> B a b) (foldl (\<lambda>sorted x. insert_left B x sorted) acc xs)"
proof (induction xs arbitrary: acc)
  case Nil
  then show ?case by simp
next
  case (Cons x xs)
  have "sorted_wrt (\<lambda>a b. \<not> B a b) (insert_left B x acc)"
    by (rule sorted_insert_left[where B = B, OF asym nt Cons.prems])
  then show ?case using Cons.IH by simp
qed

lemma insertionSort_spec:
  assumes nth: "\<And>xs j i. L xs j i = L [xs ! j, xs ! i] 0 1"
    and asym: "\<And>a b. L [a, b] 0 1 \<Longrightarrow> \<not> L [b, a] 0 1"
    and nt: "\<And>a b c. \<not> L [a, b] 0 1 \<Longrightarrow> \<not> L [b, c] 0 1 \<Longrightarrow> \<not> L [a, c] 0 1"
  shows "sort_Sort_spec L (insertionSort L)"
proof -
  define B where "B = (\<lambda>a b. L [a, b] 0 1)"
  have asymB: "\<And>a b. B a b \<Longrightarrow> \<not> B b a" using asym by (simp add: B_def)
  have ntB: "\<And>a b c. \<not> B a b \<Longrightarrow> \<not> B b c \<Longrightarrow> \<not> B a c" using nt unfolding B_def by blast
  have out: "insertionSort L data = rev (foldl (\<lambda>sorted x. insert_left B x sorted) [] data)" for data
    by (simp add: insertionSort_def B_def)
  have perm: "mset (insertionSort L data) = mset data" for data
    by (simp add: out mset_foldl_insert_left)
  have srt: "\<not> L (insertionSort L data) q p" if "p < q" "q < length data" for data p q
  proof -
    let ?out = "insertionSort L data"
    have len: "length ?out = length data"
      using perm[of data] by (metis size_mset)
    have "sorted_wrt (\<lambda>a b. \<not> B a b) (foldl (\<lambda>sorted x. insert_left B x sorted) [] data)"
      by (rule sorted_foldl_insert_left[where B = B, OF asymB ntB]) simp_all
    then have "sorted_wrt (\<lambda>a b. \<not> B b a) ?out"
      by (simp add: out sorted_wrt_rev)
    then have "\<not> B (?out ! q) (?out ! p)"
      using that len by (simp add: sorted_wrt_iff_nth_less)
    then show ?thesis using nth[of ?out q p] by (simp add: B_def)
  qed
  show ?thesis unfolding sort_Sort_spec_def using perm srt by blast
qed

text \<open>What the promise of \<open>sort.Sort\<close> gives.\<close>

lemma spec_mset: "sort_Sort_spec L srt \<Longrightarrow> mset (srt xs) = mset xs"
  by (simp add: sort_Sort_spec_def)

lemma spec_set: "sort_Sort_spec L srt \<Longrightarrow> set (srt xs) = set xs"
  by (metis spec_mset set_mset_mset)

lemma spec_length: "sort_Sort_spec L srt \<Longrightarrow> length (srt xs) = length xs"
  by (metis spec_mset size_mset)

subsection \<open>The loop of each selector\<close>

lemma FindStringSubmatch_last:
  "FindStringSubmatch re s = Some matches \<Longrightarrow> matches ! (length matches - 1) = last matches"
proof -
  assume "FindStringSubmatch re s = Some matches"
  then have "length matches = NumSubexp re + 1" by (rule FindStringSubmatch_length)
  then have "matches \<noteq> []" by auto
  then show ?thesis by (simp add: last_conv_nth)
qed

lemma selectRoutes_each_eq:
  "selectRoutes_each final (candidates, logged) each
     = (candidates @ route_candidates final each, logged @ route_logged each)"
proof -
  obtain expression litCount varCount
    where t: "templateToRegularExpression (relativePath each) = (expression, litCount, varCount)"
    by (cases "templateToRegularExpression (relativePath each)") auto
  show ?thesis
  proof (cases "utf8_ValidString (fst (templateToRegularExpression (relativePath each)))")
    case False
    then have c: "regexp_Compile expression = Inl (regexp_Error expression)"
      using Compile_template_invalid[of "relativePath each"] t by simp
    from False show ?thesis
      by (simp add: selectRoutes_each_def route_candidates_def route_logged_def t c)
  next
    case True
    then have c: "regexp_Compile expression = Inr (template_nodes (relativePath each))"
      using Compile_template[of "relativePath each"] t by simp
    show ?thesis
    proof (cases "FindStringSubmatch (template_nodes (relativePath each)) final")
      case None
      with True show ?thesis
        by (simp add: selectRoutes_each_def route_candidates_def route_logged_def t c)
    next
      case (Some matches)
      then have "matches ! (length matches - 1) = last matches" by (rule FindStringSubmatch_last)
      with Some True show ?thesis
        by (simp add: selectRoutes_each_def route_candidates_def route_logged_def t c Let_def)
    qed
  qed
qed

lemma selectRoutes_foldl:
  "foldl (selectRoutes_each final) (candidates, logged) rs
     = (candidates @ concat (map (route_candidates final) rs),
        logged @ concat (map route_logged rs))"
  by (induction rs arbitrary: candidates logged) (simp_all add: selectRoutes_each_eq)

lemma selectRoutes_loop_eq:
  "selectRoutes_loop d final
     = (concat (map (route_candidates final) (Routes d)), concat (map route_logged (Routes d)))"
  by (simp add: selectRoutes_loop_def selectRoutes_foldl)

lemma detectDispatcher_each_eq:
  "detectDispatcher_each requestPath (candidates, logged) each
     = (candidates @ dispatcher_candidates requestPath each, logged @ dispatcher_logged each)"
proof -
  obtain expression litCount varCount
    where t: "templateToRegularExpression (RootPath each) = (expression, litCount, varCount)"
    by (cases "templateToRegularExpression (RootPath each)") auto
  show ?thesis
  proof (cases "utf8_ValidString (fst (templateToRegularExpression (RootPath each)))")
    case False
    then have c: "regexp_Compile expression = Inl (regexp_Error expression)"
      using Compile_template_invalid[of "RootPath each"] t by simp
    from False show ?thesis
      by (simp add: detectDispatcher_each_def dispatcher_candidates_def dispatcher_logged_def t c)
  next
    case True
    then have c: "regexp_Compile expression = Inr (template_nodes (RootPath each))"
      using Compile_template[of "RootPath each"] t by simp
    show ?thesis
    proof (cases "FindStringSubmatch (template_nodes (RootPath each)) requestPath")
      case None
      with True show ?thesis
        by (simp add: detectDispatcher_each_def dispatcher_candidates_def dispatcher_logged_def t c)
    next
      case (Some matches)
      then have "matches ! (length matches - 1) = last matches" by (rule FindStringSubmatch_last)
      with Some True show ?thesis
        by (simp add: detectDispatcher_each_def dispatcher_candidates_def dispatcher_logged_def t c)
    qed
  qed
qed

lemma detectDispatcher_foldl:
  "foldl (detectDispatcher_each requestPath) (candidates, logged) ds
     = (candidates @ concat (map (dispatcher_candidates requestPath) ds),
        logged @ concat (map dispatcher_logged ds))"
  by (induction ds arbitrary: candidates logged) (simp_all add: detectDispatcher_each_eq)

lemma detectDispatcher_loop_eq:
  "detectDispatcher_loop requestPath ds
     = (concat (map (dispatcher_candidates requestPath) ds), concat (map dispatcher_logged ds))"
  by (simp add: detectDispatcher_loop_def detectDispatcher_foldl)

lemma template_matches_length:
  "FindStringSubmatch (template_nodes t) s = Some matches
     \<Longrightarrow> length matches = snd (snd (templateToRegularExpression t)) + 2"
  by (drule FindStringSubmatch_length) (simp add: NumSubexp_template)

lemma route_candidates_props:
  assumes "c \<in> set (route_candidates final each)"
  shows "route c = each
    \<and> regexpression c = fst (templateToRegularExpression (relativePath each))
    \<and> routeCandidate.literalCount c = fst (snd (templateToRegularExpression (relativePath each)))
    \<and> routeCandidate.nonDefaultCount c = snd (snd (templateToRegularExpression (relativePath each)))
    \<and> routeCandidate.matchesCount c = routeCandidate.nonDefaultCount c + 2"
proof (cases "FindStringSubmatch (template_nodes (relativePath each)) final")
  case None
  with assms show ?thesis by (simp add: route_candidates_def split: if_splits)
next
  case (Some matches)
  then have "length matches = snd (snd (templateToRegularExpression (relativePath each))) + 2"
    by (rule template_matches_length)
  with Some assms show ?thesis
    by (auto simp: route_candidates_def split: if_splits)
qed

lemma dispatcher_candidates_props:
  assumes "c \<in> set (dispatcher_candidates requestPath each)"
  shows "dispatcher c = each
    \<and> dispatcherCandidate.literalCount c = fst (snd (templateToRegularExpression (RootPath each)))
    \<and> dispatcherCandidate.nonDefaultCount c = snd (snd (templateToRegularExpression (RootPath each)))
    \<and> dispatcherCandidate.matchesCount c = dispatcherCandidate.nonDefaultCount c + 2"
proof (cases "FindStringSubmatch (template_nodes (RootPath each)) requestPath")
  case None
  with assms show ?thesis by (simp add: dispatcher_candidates_def split: if_splits)
next
  case (Some matches)
  then have "length matches = snd (snd (templateToRegularExpression (RootPath each))) + 2"
    by (rule template_matches_length)
  with Some assms show ?thesis
    by (auto simp: dispatcher_candidates_def split: if_splits)
qed

lemma spec_best:
  assumes spec: "sort_Sort_spec L srt"
    and nth: "\<And>xs j i. L xs j i = L [xs ! j, xs ! i] 0 1"
    and irrefl: "\<And>a. \<not> L [a, a] 0 1"
    and ne: "xs \<noteq> []"
  shows "srt xs ! 0 \<in> set xs" and "c \<in> set xs \<Longrightarrow> \<not> L [c, srt xs ! 0] 0 1"
proof -
  have len: "length (srt xs) = length xs" using spec by (rule spec_length)
  have st: "set (srt xs) = set xs" using spec by (rule spec_set)
  from len ne have "srt xs ! 0 \<in> set (srt xs)" by simp
  then show "srt xs ! 0 \<in> set xs" using st by simp
  assume "c \<in> set xs"
  then have "c \<in> set (srt xs)" using st by simp
  then obtain q where q: "q < length (srt xs)" "srt xs ! q = c"
    by (auto simp: in_set_conv_nth)
  show "\<not> L [c, srt xs ! 0] 0 1"
  proof (cases "q = 0")
    case True
    with q irrefl show ?thesis by auto
  next
    case False
    then have "\<not> L (srt xs) q 0"
      using spec q len unfolding sort_Sort_spec_def by auto
    then show ?thesis using nth[of "srt xs" q 0] q by simp
  qed
qed

subsection \<open>The comparators\<close>

lemma route_Less_nth:
  "sortableRouteCandidates_Less xs j i = sortableRouteCandidates_Less [xs ! j, xs ! i] 0 1"
  by (simp add: sortableRouteCandidates_Less_def)

lemma disp_Less_nth:
  "sortableCandidates_Less xs j i = sortableCandidates_Less [xs ! j, xs ! i] 0 1"
  by (simp add: sortableCandidates_Less_def)

lemma route_Less_pair:
  "sortableRouteCandidates_Less [a, b] 0 1 \<longleftrightarrow>
     routeCandidate.matchesCount b < routeCandidate.matchesCount a \<or>
     (routeCandidate.matchesCount b = routeCandidate.matchesCount a \<and>
      (routeCandidate.literalCount b < routeCandidate.literalCount a \<or>
       (routeCandidate.literalCount b = routeCandidate.literalCount a \<and>
        routeCandidate.nonDefaultCount b < routeCandidate.nonDefaultCount a)))"
  by (auto simp: sortableRouteCandidates_Less_def)

lemma disp_Less_pair:
  "sortableCandidates_Less [a, b] 0 1 \<longleftrightarrow>
     dispatcherCandidate.matchesCount b < dispatcherCandidate.matchesCount a \<or>
     (dispatcherCandidate.matchesCount b = dispatcherCandidate.matchesCount a \<and>
      (dispatcherCandidate.literalCount b < dispatcherCandidate.literalCount a \<or>
       (dispatcherCandidate.literalCount b = dispatcherCandidate.literalCount a \<and>
        dispatcherCandidate.nonDefaultCount b < dispatcherCandidate.nonDefaultCount a)))"
  by (auto simp: sortableCandidates_Less_def)

lemma route_Less_irrefl: "\<not> sortableRouteCandidates_Less [a, a] 0 1"
  unfolding route_Less_pair by linarith

lemma route_Less_asym:
  "sortableRouteCandidates_Less [a, b] 0 1 \<Longrightarrow> \<not> sortableRouteCandidates_Less [b, a] 0 1"
  unfolding route_Less_pair by linarith

lemma route_Less_negtrans:
  "\<not> sortableRouteCandidates_Less [a, b] 0 1 \<Longrightarrow> \<not> sortableRouteCandidates_Less [b, c] 0 1
     \<Longrightarrow> \<not> sortableRouteCandidates_Less [a, c] 0 1"
  unfolding route_Less_pair by linarith

lemma route_Less_trans:
  "sortableRouteCandidates_Less [a, b] 0 1 \<Longrightarrow> sortableRouteCandidates_Less [b, c] 0 1
     \<Longrightarrow> sortableRouteCandidates_Less [a, c] 0 1"
  unfolding route_Less_pair by linarith

lemma disp_Less_irrefl: "\<not> sortableCandidates_Less [a, a] 0 1"
  unfolding disp_Less_pair by linarith

lemma disp_Less_asym:
  "sortableCandidates_Less [a, b] 0 1 \<Longrightarrow> \<not> sortableCandidates_Less [b, a] 0 1"
  unfolding disp_Less_pair by linarith

lemma disp_Less_negtrans:
  "\<not> sortableCandidates_Less [a, b] 0 1 \<Longrightarrow> \<not> sortableCandidates_Less [b, c] 0 1
     \<Longrightarrow> \<not> sortableCandidates_Less [a, c] 0 1"
  unfolding disp_Less_pair by linarith

lemma disp_Less_trans:
  "sortableCandidates_Less [a, b] 0 1 \<Longrightarrow> sortableCandidates_Less [b, c] 0 1
     \<Longrightarrow> sortableCandidates_Less [a, c] 0 1"
  unfolding disp_Less_pair by linarith

lemma insertionSort_route_spec:
  "sort_Sort_spec sortableRouteCandidates_Less (insertionSort sortableRouteCandidates_Less)"
  by (rule insertionSort_spec[where L = sortableRouteCandidates_Less,
        OF route_Less_nth route_Less_asym route_Less_negtrans])

lemma insertionSort_disp_spec:
  "sort_Sort_spec sortableCandidates_Less (insertionSort sortableCandidates_Less)"
  by (rule insertionSort_spec[where L = sortableCandidates_Less,
        OF disp_Less_nth disp_Less_asym disp_Less_negtrans])

lemma route_best:
  assumes "sort_Sort_spec sortableRouteCandidates_Less srt" "xs \<noteq> []"
  shows "srt xs ! 0 \<in> set xs"
    and "c \<in> set xs \<Longrightarrow> \<not> sortableRouteCandidates_Less [c, srt xs ! 0] 0 1"
  using spec_best[where L = sortableRouteCandidates_Less, OF assms(1) route_Less_nth route_Less_irrefl assms(2)]
  by blast+

lemma disp_best:
  assumes "sort_Sort_spec sortableCandidates_Less srt" "xs \<noteq> []"
  shows "srt xs ! 0 \<in> set xs"
    and "c \<in> set xs \<Longrightarrow> \<not> sortableCandidates_Less [c, srt xs ! 0] 0 1"
  using spec_best[where L = sortableCandidates_Less, OF assms(1) disp_Less_nth disp_Less_irrefl assms(2)]
  by blast+

subsection \<open>Candidates\<close>

lemma route_candidates_accept:
  "route_candidates final each \<noteq> [] \<longleftrightarrow>
     (\<exists>compiled matches.
        regexp_Compile (fst (templateToRegularExpression (relativePath each))) = Inr compiled
        \<and> FindStringSubmatch compiled final = Some matches
        \<and> (last matches = [] \<or> last matches = ''/''))"
  by (auto simp: route_candidates_def Compile_template_Inr split: option.splits if_splits)

lemma dispatcher_candidates_accept:
  "dispatcher_candidates requestPath each \<noteq> [] \<longleftrightarrow>
     (\<exists>compiled matches.
        regexp_Compile (fst (templateToRegularExpression (RootPath each))) = Inr compiled
        \<and> FindStringSubmatch compiled requestPath = Some matches)"
  by (auto simp: dispatcher_candidates_def Compile_template_Inr split: option.splits if_splits)

lemma route_loop_member:
  "c \<in> set (fst (selectRoutes_loop d final))
     \<longleftrightarrow> (\<exists>each \<in> set (Routes d). c \<in> set (route_candidates final each))"
  by (auto simp: selectRoutes_loop_eq)

lemma disp_loop_member:
  "c \<in> set (fst (detectDispatcher_loop requestPath ds))
     \<longleftrightarrow> (\<exists>each \<in> set ds. c \<in> set (dispatcher_candidates requestPath each))"
  by (auto simp: detectDispatcher_loop_eq)

lemma route_loop_counts:
  "c \<in> set (fst (selectRoutes_loop d final))
     \<Longrightarrow> routeCandidate.matchesCount c = routeCandidate.nonDefaultCount c + 2"
  unfolding route_loop_member using route_candidates_props by blast

lemma disp_loop_counts:
  "c \<in> set (fst (detectDispatcher_loop requestPath ds))
     \<Longrightarrow> dispatcherCandidate.matchesCount c = dispatcherCandidate.nonDefaultCount c + 2"
  unfolding disp_loop_member using dispatcher_candidates_props by blast

lemma route_sorted_pairs:
  assumes "sort_Sort_spec sortableRouteCandidates_Less srt" "p < q" "q < length cs"
  shows "\<not> sortableRouteCandidates_Less [srt cs ! q, srt cs ! p] 0 1"
proof -
  have "\<not> sortableRouteCandidates_Less (srt cs) q p"
    using assms unfolding sort_Sort_spec_def by blast
  then show ?thesis using route_Less_nth[of "srt cs" q p] by simp
qed

lemma disp_sorted_pairs:
  assumes "sort_Sort_spec sortableCandidates_Less srt" "p < q" "q < length cs"
  shows "\<not> sortableCandidates_Less [srt cs ! q, srt cs ! p] 0 1"
proof -
  have "\<not> sortableCandidates_Less (srt cs) q p"
    using assms unfolding sort_Sort_spec_def by blast
  then show ?thesis using disp_Less_nth[of "srt cs" q p] by simp
qed

lemma route_loop_empty:
  "fst (selectRoutes_loop d final) = [] \<longleftrightarrow>
     \<not> (\<exists>each \<in> set (Routes d). \<exists>compiled matches.
          regexp_Compile (fst (templateToRegularExpression (relativePath each))) = Inr compiled
          \<and> FindStringSubmatch compiled final = Some matches
          \<and> (last matches = [] \<or> last matches = ''/''))"
  unfolding route_candidates_accept[symmetric] by (simp add: selectRoutes_loop_eq)

lemma disp_loop_empty:
  "fst (detectDispatcher_loop requestPath ds) = [] \<longleftrightarrow>
     \<not> (\<exists>each \<in> set ds. \<exists>compiled matches.
          regexp_Compile (fst (templateToRegularExpression (RootPath each))) = Inr compiled
          \<and> FindStringSubmatch compiled requestPath = Some matches)"
  unfolding dispatcher_candidates_accept[symmetric] by (simp add: detectDispatcher_loop_eq)

subsection \<open>What the selectors return\<close>

lemma selectRoutes_result:
  assumes spec: "sort_Sort_spec sortableRouteCandidates_Less srt"
    and final: "final \<noteq> []" "final \<noteq> ''/''"
    and ne: "fst (selectRoutes_loop d final) \<noteq> []"
  shows "selectRoutes srt d final =
           Inr (map route (filter (\<lambda>c. regexpression c
                    = regexpression (srt (fst (selectRoutes_loop d final)) ! 0))
                  (srt (fst (selectRoutes_loop d final)))))"
    and "mset (map route (filter (\<lambda>c. regexpression c
                    = regexpression (srt (fst (selectRoutes_loop d final)) ! 0))
                  (srt (fst (selectRoutes_loop d final)))))
         = image_mset route (filter_mset (\<lambda>c. regexpression c
                    = regexpression (srt (fst (selectRoutes_loop d final)) ! 0))
                  (mset (fst (selectRoutes_loop d final))))"
proof -
  show "selectRoutes srt d final =
           Inr (map route (filter (\<lambda>c. regexpression c
                    = regexpression (srt (fst (selectRoutes_loop d final)) ! 0))
                  (srt (fst (selectRoutes_loop d final)))))"
    using final ne by (simp add: selectRoutes_def Let_def)
  have "mset (srt (fst (selectRoutes_loop d final))) = mset (fst (selectRoutes_loop d final))"
    using spec by (rule spec_mset)
  then show "mset (map route (filter (\<lambda>c. regexpression c
                    = regexpression (srt (fst (selectRoutes_loop d final)) ! 0))
                  (srt (fst (selectRoutes_loop d final)))))
         = image_mset route (filter_mset (\<lambda>c. regexpression c
                    = regexpression (srt (fst (selectRoutes_loop d final)) ! 0))
                  (mset (fst (selectRoutes_loop d final))))"
    by simp
qed

lemma mset_single_list: "mset xs = {#x#} \<Longrightarrow> xs = [x]"
  by (cases xs) (auto simp: add_mset_eq_single)

lemma route_loop_routes:
  "each \<in> route ` set (fst (selectRoutes_loop d final))
     \<longleftrightarrow> each \<in> set (Routes d) \<and> route_candidates final each \<noteq> []"
proof
  assume "each \<in> route ` set (fst (selectRoutes_loop d final))"
  then obtain c where c: "c \<in> set (fst (selectRoutes_loop d final))" "route c = each" by auto
  then obtain r where r: "r \<in> set (Routes d)" "c \<in> set (route_candidates final r)"
    unfolding route_loop_member by blast
  then have "route c = r" using route_candidates_props by blast
  with c r show "each \<in> set (Routes d) \<and> route_candidates final each \<noteq> []" by auto
next
  assume a: "each \<in> set (Routes d) \<and> route_candidates final each \<noteq> []"
  then obtain c where c: "c \<in> set (route_candidates final each)"
    by (cases "route_candidates final each") auto
  then have "route c = each" using route_candidates_props by blast
  moreover have "c \<in> set (fst (selectRoutes_loop d final))"
    unfolding route_loop_member using a c by blast
  ultimately show "each \<in> route ` set (fst (selectRoutes_loop d final))" by force
qed

lemma selectRoutes_subset:
  assumes "selectRoutes srt d final = Inr rs" "final \<noteq> []" "final \<noteq> ''/''"
    and spec: "sort_Sort_spec sortableRouteCandidates_Less srt"
  shows "set rs \<subseteq> route ` set (fst (selectRoutes_loop d final))"
proof -
  have ne: "fst (selectRoutes_loop d final) \<noteq> []"
    using assms(1-3) by (auto simp: selectRoutes_def Let_def split: if_splits)
  have "rs = map route (filter (\<lambda>c. regexpression c
                    = regexpression (srt (fst (selectRoutes_loop d final)) ! 0))
                  (srt (fst (selectRoutes_loop d final))))"
    using selectRoutes_result(1)[OF spec assms(2,3) ne] assms(1) by simp
  then have "set rs \<subseteq> route ` set (srt (fst (selectRoutes_loop d final)))" by auto
  then show ?thesis using spec_set[OF spec] by simp
qed

lemma result_member:
  assumes spec: "sort_Sort_spec sortableRouteCandidates_Less srt"
  shows "r \<in> set (map route (filter (\<lambda>c. regexpression c = e) (srt (fst (selectRoutes_loop d final)))))
     \<longleftrightarrow> r \<in> set (Routes d) \<and> route_candidates final r \<noteq> []
         \<and> fst (templateToRegularExpression (relativePath r)) = e"
proof
  assume "r \<in> set (map route (filter (\<lambda>c. regexpression c = e) (srt (fst (selectRoutes_loop d final)))))"
  then obtain c where c: "c \<in> set (srt (fst (selectRoutes_loop d final)))" "regexpression c = e" "route c = r"
    by auto
  then have "c \<in> set (fst (selectRoutes_loop d final))" using spec_set[OF spec] by simp
  then obtain each where each: "each \<in> set (Routes d)" "c \<in> set (route_candidates final each)"
    unfolding route_loop_member by blast
  have p: "route c = each \<and> regexpression c = fst (templateToRegularExpression (relativePath each))"
    using route_candidates_props[OF each(2)] by simp
  with c each show "r \<in> set (Routes d) \<and> route_candidates final r \<noteq> []
         \<and> fst (templateToRegularExpression (relativePath r)) = e"
    by auto
next
  assume a: "r \<in> set (Routes d) \<and> route_candidates final r \<noteq> []
         \<and> fst (templateToRegularExpression (relativePath r)) = e"
  then obtain c where c: "c \<in> set (route_candidates final r)"
    by (cases "route_candidates final r") auto
  have p: "route c = r \<and> regexpression c = fst (templateToRegularExpression (relativePath r))"
    using route_candidates_props[OF c] by simp
  have "c \<in> set (fst (selectRoutes_loop d final))"
    unfolding route_loop_member using a c by blast
  then have "c \<in> set (srt (fst (selectRoutes_loop d final)))" using spec_set[OF spec] by simp
  with p a show "r \<in> set (map route (filter (\<lambda>c. regexpression c = e) (srt (fst (selectRoutes_loop d final)))))"
    by force
qed

lemma same_pattern_same_candidacy:
  assumes "fst (templateToRegularExpression (relativePath r1))
         = fst (templateToRegularExpression (relativePath r2))"
  shows "route_candidates final r1 \<noteq> [] \<longleftrightarrow> route_candidates final r2 \<noteq> []"
  unfolding route_candidates_accept assms by (rule refl)

lemma tie_group:
  assumes spec: "sort_Sort_spec sortableRouteCandidates_Less srt"
    and "r1 \<in> set (Routes d)" "r2 \<in> set (Routes d)"
    and same: "fst (templateToRegularExpression (relativePath r1))
         = fst (templateToRegularExpression (relativePath r2))"
  shows "r1 \<in> set (map route (filter (\<lambda>c. regexpression c = e) (srt (fst (selectRoutes_loop d final)))))
     \<longleftrightarrow> r2 \<in> set (map route (filter (\<lambda>c. regexpression c = e) (srt (fst (selectRoutes_loop d final)))))"
  unfolding result_member[OF spec] using assms(2,3) same same_pattern_same_candidacy[OF same] by simp

lemma dispatcher_candidates_member:
  "c \<in> set (dispatcher_candidates requestPath each) \<longleftrightarrow>
     (\<exists>compiled matches.
        regexp_Compile (fst (templateToRegularExpression (RootPath each))) = Inr compiled
        \<and> FindStringSubmatch compiled requestPath = Some matches
        \<and> c = \<lparr>dispatcher = each, finalMatch = last matches, matchesCount = length matches,
                literalCount = fst (snd (templateToRegularExpression (RootPath each))),
                nonDefaultCount = snd (snd (templateToRegularExpression (RootPath each)))\<rparr>)"
proof (cases "FindStringSubmatch (template_nodes (RootPath each)) requestPath")
  case None
  then show ?thesis by (simp add: dispatcher_candidates_def Compile_template_Inr)
next
  case (Some matches)
  then show ?thesis by (auto simp: dispatcher_candidates_def Compile_template_Inr)
qed

lemma detectDispatcher_result:
  assumes "fst (detectDispatcher_loop requestPath dispatchers) \<noteq> []"
  shows "detectDispatcher srt requestPath dispatchers
     = Inr (dispatcher (srt (fst (detectDispatcher_loop requestPath dispatchers)) ! 0),
            finalMatch (srt (fst (detectDispatcher_loop requestPath dispatchers)) ! 0))"
  using assms by (simp add: detectDispatcher_def Let_def)

subsection \<open>Patterns of templates without variables\<close>

lemma match_here_lits:
  "match_here (map Lit lits @ ns) s = Some m \<Longrightarrow> \<exists>rest. s = lits @ rest"
proof (induction lits arbitrary: s)
  case Nil
  then show ?case by simp
next
  case (Cons c cs)
  then show ?case by (cases s) (auto split: if_splits)
qed

lemma FindStringSubmatch_suffix:
  "FindStringSubmatch re s = Some matches
     \<Longrightarrow> \<exists>pre suf m. s = pre @ suf \<and> match_here re suf = Some m"
proof (induction s)
  case Nil
  then show ?case by (auto split: option.splits)
next
  case (Cons c cs)
  show ?case
  proof (cases "match_here re (c # cs)")
    case None
    with Cons.prems have "FindStringSubmatch re cs = Some matches" by simp
    then obtain pre suf m where "cs = pre @ suf" "match_here re suf = Some m"
      using Cons.IH by blast
    then have "c # cs = (c # pre) @ suf \<and> match_here re suf = Some m" by simp
    then show ?thesis by blast
  next
    case (Some m)
    then have "c # cs = [] @ (c # cs) \<and> match_here re (c # cs) = Some m" by simp
    then show ?thesis by blast
  qed
qed

lemma literal_template_nodes:
  assumes "\<forall>each \<in> set (strings_Split template (CHR ''/'')). \<not> strings_HasPrefix each ''{''"
  shows "template_nodes template
     = map Lit (concat (map ((#) (CHR ''/''))
                  (filter (\<lambda>each. each \<noteq> []) (strings_Split template (CHR ''/''))))) @ [RestGroup]"
proof -
  have "concat (map segment_nodes segs) = map Lit (concat (map ((#) (CHR ''/'')) segs))"
    if "\<forall>each \<in> set segs. \<not> strings_HasPrefix each ''{''" for segs
    using that by (induction segs) (simp_all add: segment_nodes_def)
  moreover have "\<forall>each \<in> set (segments template). \<not> strings_HasPrefix each ''{''"
    using assms by (simp add: segments_def)
  ultimately show ?thesis by (simp add: template_nodes_def segments_def)
qed

lemma literal_template_matches:
  assumes novar: "\<forall>each \<in> set (strings_Split template (CHR ''/'')). \<not> strings_HasPrefix each ''{''"
    and c: "regexp_Compile (fst (templateToRegularExpression template)) = Inr compiled"
    and m: "FindStringSubmatch compiled path = Some matches"
  shows "\<exists>pre post. path = pre @ concat (map ((#) (CHR ''/''))
            (filter (\<lambda>each. each \<noteq> []) (strings_Split template (CHR ''/'')))) @ post"
proof -
  let ?lits = "concat (map ((#) (CHR ''/''))
            (filter (\<lambda>each. each \<noteq> []) (strings_Split template (CHR ''/''))))"
  have compiled: "compiled = map Lit ?lits @ [RestGroup]"
    using c literal_template_nodes[OF novar] by (simp add: Compile_template_Inr)
  from m obtain pre suf r where s: "path = pre @ suf" "match_here compiled suf = Some r"
    using FindStringSubmatch_suffix by blast
  then obtain rest where "suf = ?lits @ rest"
    unfolding compiled using match_here_lits by blast
  with s show ?thesis by blast
qed

subsection \<open>Templates that do not compile\<close>

text \<open>The log of each loop has one entry per template that does not compile, in order.\<close>

lemma route_logged_eq:
  "route_logged each =
     (case regexp_Compile (fst (templateToRegularExpression (relativePath each))) of
        Inl err \<Rightarrow> [(Path each, err)] | Inr compiled \<Rightarrow> [])"
  by (simp add: route_logged_def Compile_template_cases)

lemma dispatcher_logged_eq:
  "dispatcher_logged each =
     (case regexp_Compile (fst (templateToRegularExpression (RootPath each))) of
        Inl err \<Rightarrow> [(RootPath each, err)] | Inr compiled \<Rightarrow> [])"
  by (simp add: dispatcher_logged_def Compile_template_cases)

lemma selectRoutes_log_eq:
  "selectRoutes_log d final =
     (if final = [] \<or> final = ''/'' then []
      else concat (map (\<lambda>each.
             case regexp_Compile (fst (templateToRegularExpression (relativePath each))) of
               Inl err \<Rightarrow> [(Path each, err)] | Inr compiled \<Rightarrow> []) (Routes d)))"
  by (simp add: selectRoutes_log_def selectRoutes_loop_eq route_logged_eq[abs_def])

lemma detectDispatcher_log_eq:
  "detectDispatcher_log requestPath ds =
     concat (map (\<lambda>each.
        case regexp_Compile (fst (templateToRegularExpression (RootPath each))) of
          Inl err \<Rightarrow> [(RootPath each, err)] | Inr compiled \<Rightarrow> []) ds)"
  by (simp add: detectDispatcher_log_def detectDispatcher_loop_eq dispatcher_logged_eq[abs_def])

text \<open>A template that does not compile gives no candidate.\<close>

lemma route_loop_compiles:
  assumes "c \<in> set (fst (selectRoutes_loop d final))"
  shows "route c \<in> set (Routes d)
     \<and> (\<exists>compiled. regexp_Compile (fst (templateToRegularExpression (relativePath (route c))))
            = Inr compiled)"
proof -
  from assms have "route c \<in> route ` set (fst (selectRoutes_loop d final))" by (rule imageI)
  then show ?thesis unfolding route_loop_routes route_candidates_accept by blast
qed

lemma disp_loop_compiles:
  assumes "c \<in> set (fst (detectDispatcher_loop requestPath ds))"
  shows "dispatcher c \<in> set ds
     \<and> (\<exists>compiled. regexp_Compile (fst (templateToRegularExpression (RootPath (dispatcher c))))
            = Inr compiled)"
proof -
  from assms obtain each where e: "each \<in> set ds" "c \<in> set (dispatcher_candidates requestPath each)"
    unfolding disp_loop_member by blast
  then have "dispatcher c = each" unfolding dispatcher_candidates_member by auto
  moreover from e(2) have "\<exists>compiled.
      regexp_Compile (fst (templateToRegularExpression (RootPath each))) = Inr compiled"
    unfolding dispatcher_candidates_member by blast
  ultimately show ?thesis using e(1) by simp
qed

text \<open>One candidate: its route is the result, whatever the sorting function.\<close>

lemma selectRoutes_single:
  assumes spec: "sort_Sort_spec sortableRouteCandidates_Less srt"
    and final: "final \<noteq> []" "final \<noteq> ''/''"
    and l: "fst (selectRoutes_loop d final) = [c]"
  shows "selectRoutes srt d final = Inr [route c]"
proof -
  have "mset (srt [c]) = {#c#}" using spec_mset[OF spec, of "[c]"] by simp
  then have s: "srt [c] = [c]" by (rule mset_single_list)
  show ?thesis using final by (simp add: selectRoutes_def l s)
qed

subsection \<open>The examples, evaluated\<close>

lemmas template_eval =
  templateToRegularExpression_def template_token_def strings_HasPrefix_def regexp_QuoteMeta_def
  strings_TrimRight_def specialBytes_def backslash_def

lemmas nodes_eval = template_nodes_def segments_def segment_nodes_def strings_HasPrefix_def

lemmas match_eval = rest_group_def with_capture_def newline_def

lemma tmpl_a_var: "templateToRegularExpression ''/a/{var}'' = (''/a/([^/]+?)(/.*)?'', 1, 1)"
  by (simp add: template_eval)

lemma tmpl_a_b: "templateToRegularExpression ''/a/b'' = (''/a/b(/.*)?'', 2, 0)"
  by (simp add: template_eval)

lemma nodes_a_var:
  "template_nodes ''/a/{var}'' = [Lit (CHR ''/''), Lit (CHR ''a''), Lit (CHR ''/''), VarGroup, RestGroup]"
  by (simp add: nodes_eval)

lemma nodes_a_b:
  "template_nodes ''/a/b'' = [Lit (CHR ''/''), Lit (CHR ''a''), Lit (CHR ''/''), Lit (CHR ''b''), RestGroup]"
  by (simp add: nodes_eval)

lemma find_a_var: "FindStringSubmatch (template_nodes ''/a/{var}'') ''/a/b'' = Some [''/a/b'', ''b'', []]"
  by (simp add: nodes_a_var match_eval)

lemma find_a_b: "FindStringSubmatch (template_nodes ''/a/b'') ''/a/b'' = Some [''/a/b'', []]"
  by (simp add: nodes_a_b match_eval)

lemma cand_a_var:
  assumes r: "relativePath each = ''/a/{var}''"
  shows "route_candidates ''/a/b'' each =
     [\<lparr>route = each, regexpression = ''/a/([^/]+?)(/.*)?'', matchesCount = 3,
       literalCount = 1, nonDefaultCount = 1\<rparr>]"
  unfolding route_candidates_def r find_a_var tmpl_a_var by simp

lemma cand_a_b:
  assumes r: "relativePath each = ''/a/b''"
  shows "route_candidates ''/a/b'' each =
     [\<lparr>route = each, regexpression = ''/a/b(/.*)?'', matchesCount = 2,
       literalCount = 2, nonDefaultCount = 0\<rparr>]"
  unfolding route_candidates_def r find_a_b tmpl_a_b by simp

lemmas cand_eval = nodes_eval match_eval template_eval

lemma cand_ab_x:
  assumes r: "relativePath each = ''/a/b''"
  shows "route_candidates ''/x'' each = []"
  unfolding route_candidates_def r by (simp add: cand_eval)

lemma cand_c_x:
  assumes r: "relativePath each = ''/c''"
  shows "route_candidates ''/x'' each = []"
  unfolding route_candidates_def r by (simp add: cand_eval)

lemma dcand_a_x:
  assumes r: "RootPath each = ''/a''"
  shows "dispatcher_candidates ''/x'' each = []"
  unfolding dispatcher_candidates_def r by (simp add: cand_eval)

lemma dcand_bc_x:
  assumes r: "RootPath each = ''/b/{c}''"
  shows "dispatcher_candidates ''/x'' each = []"
  unfolding dispatcher_candidates_def r by (simp add: cand_eval)

lemma cand_xa_xyz:
  assumes r: "relativePath each = ''/x/{a}''"
  shows "route_candidates ''/x/y/z'' each = []"
  unfolding route_candidates_def r by (simp add: cand_eval)

lemma cand_xab_xyz:
  assumes r: "relativePath each = ''/x/{a}/{b}''"
  shows "route_candidates ''/x/y/z'' each =
     [\<lparr>route = each, regexpression = ''/x/([^/]+?)/([^/]+?)(/.*)?'', matchesCount = 4,
       literalCount = 1, nonDefaultCount = 2\<rparr>]"
  unfolding route_candidates_def r by (simp add: cand_eval)

lemma find_xa_xyz:
  "FindStringSubmatch (template_nodes ''/x/{a}'') ''/x/y/z'' = Some [''/x/y/z'', ''y'', ''/z'']"
  by (simp add: cand_eval)

lemma dcand_api:
  assumes r: "RootPath each = ''/api''"
  shows "dispatcher_candidates ''/api/users/7'' each =
     [\<lparr>dispatcher = each, finalMatch = ''/users/7'', matchesCount = 2,
       literalCount = 3, nonDefaultCount = 0\<rparr>]"
  unfolding dispatcher_candidates_def r by (simp add: cand_eval)

lemma dcand_api_users:
  assumes r: "RootPath each = ''/api/users''"
  shows "dispatcher_candidates ''/api/users/7'' each =
     [\<lparr>dispatcher = each, finalMatch = ''/7'', matchesCount = 2,
       literalCount = 8, nonDefaultCount = 0\<rparr>]"
  unfolding dispatcher_candidates_def r by (simp add: cand_eval)

lemma dcand_web:
  assumes r: "RootPath each = ''/web''"
  shows "dispatcher_candidates ''/api/users/7'' each = []"
  unfolding dispatcher_candidates_def r by (simp add: cand_eval)

lemma dcand_x_empty:
  assumes r: "RootPath each = ''/x''"
  shows "dispatcher_candidates [] each = []"
  unfolding dispatcher_candidates_def r by (simp add: cand_eval)

lemma cand_ax_aq:
  assumes r: "relativePath each = ''/a/{x}''"
  shows "route_candidates ''/a/q'' each =
     [\<lparr>route = each, regexpression = ''/a/([^/]+?)(/.*)?'', matchesCount = 3,
       literalCount = 1, nonDefaultCount = 1\<rparr>]"
  unfolding route_candidates_def r by (simp add: cand_eval)

lemma cand_ay_aq:
  assumes r: "relativePath each = ''/a/{y}''"
  shows "route_candidates ''/a/q'' each =
     [\<lparr>route = each, regexpression = ''/a/([^/]+?)(/.*)?'', matchesCount = 3,
       literalCount = 1, nonDefaultCount = 1\<rparr>]"
  unfolding route_candidates_def r by (simp add: cand_eval)

lemma cand_aq_aq:
  assumes r: "relativePath each = ''/a/q''"
  shows "route_candidates ''/a/q'' each =
     [\<lparr>route = each, regexpression = ''/a/q(/.*)?'', matchesCount = 2,
       literalCount = 2, nonDefaultCount = 0\<rparr>]"
  unfolding route_candidates_def r by (simp add: cand_eval)

text \<open>The variable group takes as little as the rest of the pattern allows, and the
  pattern need not reach the end of the path.\<close>

lemma find_xa_xyyz:
  "FindStringSubmatch (template_nodes ''/x/{a}'') ''/x/yy/z'' = Some [''/x/y'', ''y'', []]"
  by (simp add: cand_eval)

lemma nodes_a_dot_b:
  "template_nodes ''/a.b'' = [Lit (CHR ''/''), Lit (CHR ''a''), Lit (CHR ''.''), Lit (CHR ''b''), RestGroup]"
  by (simp add: nodes_eval)

lemma tmpl_a_dot_b:
  "templateToRegularExpression ''/a.b'' = (''/a'' @ backslash # ''.b(/.*)?'', 3, 0)"
  by (simp add: template_eval)

lemma find_a_dot_b:
  "FindStringSubmatch (template_nodes ''/a.b'') ''/a.b'' = Some [''/a.b'', []]"
  "FindStringSubmatch (template_nodes ''/a.b'') ''/a.b/c'' = Some [''/a.b/c'', ''/c'']"
  "FindStringSubmatch (template_nodes ''/a.b'') ''/aXb'' = None"
  "FindStringSubmatch (template_nodes ''/a.b'') ''/a.bc'' = Some [''/a.b'', []]"
  "FindStringSubmatch (template_nodes ''/a.b'') ''/q/a.b'' = Some [''/a.b'', []]"
  by (simp_all add: cand_eval)

text \<open>The remainder group takes everything up to the end of the line.\<close>

lemma greedy_dots_total:
  assumes "\<And>a r. k a r \<noteq> None"
  shows "greedy_dots k acc s
     = k (acc @ takeWhile (\<lambda>c. c \<noteq> newline) s) (dropWhile (\<lambda>c. c \<noteq> newline) s)"
proof (induction s arbitrary: acc)
  case Nil
  then show ?case by simp
next
  case (Cons c cs)
  show ?case
  proof (cases "c = newline")
    case True
    then show ?thesis by simp
  next
    case False
    have "greedy_dots k (acc @ [c]) cs
        = k ((acc @ [c]) @ takeWhile (\<lambda>c. c \<noteq> newline) cs) (dropWhile (\<lambda>c. c \<noteq> newline) cs)"
      by (rule Cons.IH)
    moreover have "k ((acc @ [c]) @ takeWhile (\<lambda>c. c \<noteq> newline) cs)
        (dropWhile (\<lambda>c. c \<noteq> newline) cs) \<noteq> None"
      by (rule assms)
    ultimately show ?thesis using False by (auto split: option.splits)
  qed
qed

lemma rest_group_end:
  "rest_group (\<lambda>s. Some ([], s)) (CHR ''/'' # s)
     = Some ([CHR ''/'' # takeWhile (\<lambda>c. c \<noteq> newline) s], dropWhile (\<lambda>c. c \<noteq> newline) s)"
proof -
  have "greedy_dots (\<lambda>dots rest. with_capture (CHR ''/'' # dots) (Some ([], rest))) [] s
      = with_capture (CHR ''/'' # ([] @ takeWhile (\<lambda>c. c \<noteq> newline) s))
          (Some ([], dropWhile (\<lambda>c. c \<noteq> newline) s))"
    by (rule greedy_dots_total) (simp add: with_capture_def)
  then show ?thesis by (simp add: rest_group_def with_capture_def)
qed

lemma find_a_dot_b_subpath:
  "FindStringSubmatch [Lit (CHR ''/''), Lit (CHR ''a''), Lit (CHR ''.''), Lit (CHR ''b''), RestGroup]
     (''/a.b/'' @ rest)
   = Some [''/a.b/'' @ takeWhile (\<lambda>c. c \<noteq> newline) rest,
           ''/'' @ takeWhile (\<lambda>c. c \<noteq> newline) rest]"
proof -
  let ?tw = "takeWhile (\<lambda>c. c \<noteq> newline) rest"
  let ?dw = "dropWhile (\<lambda>c. c \<noteq> newline) rest"
  have rest: "rest = ?tw @ ?dw" by simp
  have m: "match_here [Lit (CHR ''/''), Lit (CHR ''a''), Lit (CHR ''.''), Lit (CHR ''b''), RestGroup]
             (CHR ''/'' # ''a.b/'' @ rest) = Some ([CHR ''/'' # ?tw], ?dw)"
    by (simp add: rest_group_end)
  have "take (length (p @ u @ v) - length v) (p @ u @ v) = p @ u" for p u v :: string
    by simp
  from this[of "''/a.b/''" ?tw ?dw]
  have t: "take (length (CHR ''/'' # ''a.b/'' @ rest) - length ?dw)
      (CHR ''/'' # ''a.b/'' @ rest) = ''/a.b/'' @ ?tw"
    by (simp only: takeWhile_dropWhile_id append_Cons append_Nil)
  have "FindStringSubmatch [Lit (CHR ''/''), Lit (CHR ''a''), Lit (CHR ''.''), Lit (CHR ''b''), RestGroup]
     (CHR ''/'' # ''a.b/'' @ rest) = Some ((''/a.b/'' @ ?tw) # [CHR ''/'' # ?tw])"
    unfolding FindStringSubmatch.simps m t[symmetric] by simp
  then show ?thesis by simp
qed

text \<open>The template \<open>/\<close> followed by the byte \<open>0xFF\<close>: its expression is not
  well-formed UTF-8 and does not compile.\<close>

lemma tmpl_bad:
  "templateToRegularExpression [CHR ''/'', CHR 0xFF] = (CHR ''/'' # CHR 0xFF # ''(/.*)?'', 1, 0)"
  by (simp add: template_eval)

lemma invalid_bad: "\<not> utf8_ValidString (CHR ''/'' # CHR 0xFF # ''(/.*)?'')"
  by simp

lemma compile_bad:
  "regexp_Compile (fst (templateToRegularExpression [CHR ''/'', CHR 0xFF]))
     = Inl (regexp_Error (CHR ''/'' # CHR 0xFF # ''(/.*)?''))"
proof -
  have "\<not> utf8_ValidString (fst (templateToRegularExpression [CHR ''/'', CHR 0xFF]))"
    unfolding tmpl_bad using invalid_bad by simp
  from Compile_template_invalid[OF this] show ?thesis unfolding tmpl_bad by simp
qed

lemma cand_bad:
  assumes r: "relativePath each = [CHR ''/'', CHR 0xFF]"
  shows "route_candidates final each = []"
  unfolding route_candidates_def r tmpl_bad using invalid_bad by simp

lemma logged_bad:
  assumes r: "relativePath each = [CHR ''/'', CHR 0xFF]"
  shows "route_logged each = [(Path each, regexp_Error (CHR ''/'' # CHR 0xFF # ''(/.*)?''))]"
  unfolding route_logged_def r tmpl_bad using invalid_bad by simp

lemma dcand_bad:
  assumes r: "RootPath each = [CHR ''/'', CHR 0xFF]"
  shows "dispatcher_candidates requestPath each = []"
  unfolding dispatcher_candidates_def r tmpl_bad using invalid_bad by simp

lemma dlogged_bad:
  assumes r: "RootPath each = [CHR ''/'', CHR 0xFF]"
  shows "dispatcher_logged each = [(RootPath each, regexp_Error (CHR ''/'' # CHR 0xFF # ''(/.*)?''))]"
  unfolding dispatcher_logged_def r tmpl_bad using invalid_bad by simp

lemma cand_a_a:
  assumes r: "relativePath each = ''/a''"
  shows "route_candidates ''/a'' each =
     [\<lparr>route = each, regexpression = ''/a(/.*)?'', matchesCount = 2,
       literalCount = 1, nonDefaultCount = 0\<rparr>]"
  unfolding route_candidates_def r by (simp add: cand_eval)

lemma logged_a:
  assumes r: "relativePath each = ''/a''"
  shows "route_logged each = []"
  unfolding route_logged_def r by (simp add: template_eval)

lemma dcand_a_ax:
  assumes r: "RootPath each = ''/a''"
  shows "dispatcher_candidates ''/a/x'' each =
     [\<lparr>dispatcher = each, finalMatch = ''/x'', matchesCount = 2,
       literalCount = 1, nonDefaultCount = 0\<rparr>]"
  unfolding dispatcher_candidates_def r by (simp add: cand_eval)

lemma dlogged_a:
  assumes r: "RootPath each = ''/a''"
  shows "dispatcher_logged each = []"
  unfolding dispatcher_logged_def r by (simp add: template_eval)

text \<open>Matches that stop before the end of the path, or start after its beginning.\<close>

lemma valid_xa: "utf8_ValidString (fst (templateToRegularExpression ''/x/{a}''))"
  by (simp add: template_eval)

lemma valid_a_dot_b: "utf8_ValidString (fst (templateToRegularExpression ''/a.b''))"
  by (simp add: template_eval)

lemma cand_xa_xyyz:
  assumes r: "relativePath each = ''/x/{a}''"
  shows "route_candidates ''/x/yy/z'' each =
     [\<lparr>route = each, regexpression = ''/x/([^/]+?)(/.*)?'', matchesCount = 3,
       literalCount = 1, nonDefaultCount = 1\<rparr>]"
  unfolding route_candidates_def r by (simp add: cand_eval)

lemma cand_a_dot_b:
  assumes r: "relativePath each = ''/a.b''"
  shows "route_candidates ''/a.bc'' each =
     [\<lparr>route = each, regexpression = ''/a'' @ backslash # ''.b(/.*)?'', matchesCount = 2,
       literalCount = 3, nonDefaultCount = 0\<rparr>]"
    and "route_candidates ''/q/a.b'' each =
     [\<lparr>route = each, regexpression = ''/a'' @ backslash # ''.b(/.*)?'', matchesCount = 2,
       literalCount = 3, nonDefaultCount = 0\<rparr>]"
    and "route_candidates ''/aXb'' each = []"
  unfolding route_candidates_def r by (simp_all add: cand_eval)

section \<open>The claims\<close>

subsection \<open>C1\<close>

text \<open>
  Claim C1, as amended. For a dispatcher with exactly the two routes \<open>/a/{var}\<close> and
  \<open>/a/b\<close>, in either order, \<open>selectRoutes\<close> with the remainder \<open>/a/b\<close> returns
  the variable route \<open>/a/{var}\<close> alone, for every sorting function that keeps the
  promise of \<open>sort.Sort\<close>. Both routes are candidates: the variable route with
  \<open>matchesCount = 3\<close> and \<open>literalCount = 1\<close>, the literal route with
  \<open>matchesCount = 2\<close> and \<open>literalCount = 2\<close>; \<open>matchesCount\<close> is the primary key,
  so the variable route must sort first.
\<close>

theorem C1_variable_route_is_preferred:
  assumes spec: "sort_Sort_spec sortableRouteCandidates_Less srt"
    and rv: "relativePath rv = ''/a/{var}''"
    and rl: "relativePath rl = ''/a/b''"
    and routes: "Routes d = [rv, rl] \<or> Routes d = [rl, rv]"
  shows "selectRoutes srt d ''/a/b'' = Inr [rv]
    \<and> set (fst (selectRoutes_loop d ''/a/b''))
        = {\<lparr>route = rv, regexpression = ''/a/([^/]+?)(/.*)?'', matchesCount = 3,
             literalCount = 1, nonDefaultCount = 1\<rparr>,
           \<lparr>route = rl, regexpression = ''/a/b(/.*)?'', matchesCount = 2,
             literalCount = 2, nonDefaultCount = 0\<rparr>}
    \<and> sortableRouteCandidates_Less
          [\<lparr>route = rv, regexpression = ''/a/([^/]+?)(/.*)?'', matchesCount = 3,
             literalCount = 1, nonDefaultCount = 1\<rparr>,
           \<lparr>route = rl, regexpression = ''/a/b(/.*)?'', matchesCount = 2,
             literalCount = 2, nonDefaultCount = 0\<rparr>] 0 1"
proof -
  define cv where "cv = \<lparr>route = rv, regexpression = ''/a/([^/]+?)(/.*)?'', matchesCount = 3,
             literalCount = 1, nonDefaultCount = 1\<rparr>"
  define cl where "cl = \<lparr>route = rl, regexpression = ''/a/b(/.*)?'', matchesCount = 2,
             literalCount = 2, nonDefaultCount = 0\<rparr>"
  define cs where "cs = fst (selectRoutes_loop d ''/a/b'')"
  have cs: "cs = [cv, cl] \<or> cs = [cl, cv]"
    using routes
    by (auto simp: cs_def selectRoutes_loop_eq cand_a_var[OF rv] cand_a_b[OF rl] cv_def cl_def)
  then have set_cs: "set cs = {cv, cl}" and ne: "cs \<noteq> []" and ms: "mset cs = {#cv, cl#}"
    by auto
  have before: "sortableRouteCandidates_Less [cv, cl] 0 1"
    by (simp add: sortableRouteCandidates_Less_def cv_def cl_def)
  have diff: "regexpression cl \<noteq> regexpression cv"
    by (simp add: cv_def cl_def)
  have "srt cs ! 0 \<in> set cs" using spec ne by (rule route_best(1))
  moreover have "\<not> sortableRouteCandidates_Less [cv, srt cs ! 0] 0 1"
    using route_best(2)[OF spec ne, of cv] set_cs by simp
  ultimately have best: "srt cs ! 0 = cv" using set_cs before by auto
  have "filter_mset (\<lambda>c. regexpression c = regexpression (srt cs ! 0)) (mset cs) = {#cv#}"
    using diff by (simp add: best ms)
  then have "mset (map route (filter (\<lambda>c. regexpression c = regexpression (srt cs ! 0)) (srt cs)))
      = {#rv#}"
    using selectRoutes_result(2)[OF spec _ _ ne[unfolded cs_def]]
    by (simp add: cs_def cv_def)
  then have "map route (filter (\<lambda>c. regexpression c = regexpression (srt cs ! 0)) (srt cs)) = [rv]"
    by (rule mset_single_list)
  then have "selectRoutes srt d ''/a/b'' = Inr [rv]"
    using selectRoutes_result(1)[OF spec _ _ ne[unfolded cs_def]] by (simp add: cs_def)
  then show ?thesis using set_cs before by (simp add: cs_def cv_def cl_def)
qed

text \<open>The theorem at the two routes of the example, sorted by insertion.\<close>

theorem C1_witness:
  "selectRoutes (insertionSort sortableRouteCandidates_Less)
      (example_dispatcher ''/'' [''/a/{var}'', ''/a/b'']) ''/a/b''
     = Inr [example_route ''/a/{var}'']"
proof -
  have "selectRoutes (insertionSort sortableRouteCandidates_Less)
      (example_dispatcher ''/'' [''/a/{var}'', ''/a/b'']) ''/a/b''
     = Inr [example_route ''/a/{var}'']
    \<and> set (fst (selectRoutes_loop (example_dispatcher ''/'' [''/a/{var}'', ''/a/b'']) ''/a/b''))
        = {\<lparr>route = example_route ''/a/{var}'', regexpression = ''/a/([^/]+?)(/.*)?'', matchesCount = 3,
             literalCount = 1, nonDefaultCount = 1\<rparr>,
           \<lparr>route = example_route ''/a/b'', regexpression = ''/a/b(/.*)?'', matchesCount = 2,
             literalCount = 2, nonDefaultCount = 0\<rparr>}
    \<and> sortableRouteCandidates_Less
          [\<lparr>route = example_route ''/a/{var}'', regexpression = ''/a/([^/]+?)(/.*)?'', matchesCount = 3,
             literalCount = 1, nonDefaultCount = 1\<rparr>,
           \<lparr>route = example_route ''/a/b'', regexpression = ''/a/b(/.*)?'', matchesCount = 2,
             literalCount = 2, nonDefaultCount = 0\<rparr>] 0 1"
    by (rule C1_variable_route_is_preferred[OF insertionSort_route_spec])
       (simp_all add: example_route_def example_dispatcher_def)
  then show ?thesis by (rule conjunct1)
qed

text \<open>The literal route is not the one returned, in either order of the two routes, and
  the two candidates differ in \<open>matchesCount\<close>.\<close>

theorem C1_counterexample:
  "selectRoutes (insertionSort sortableRouteCandidates_Less)
      (example_dispatcher ''/'' [''/a/{var}'', ''/a/b'']) ''/a/b''
     = Inr [example_route ''/a/{var}'']
   \<and> selectRoutes (insertionSort sortableRouteCandidates_Less)
      (example_dispatcher ''/'' [''/a/b'', ''/a/{var}'']) ''/a/b''
     = Inr [example_route ''/a/{var}'']
   \<and> map routeCandidate.matchesCount
         (fst (selectRoutes_loop (example_dispatcher ''/'' [''/a/{var}'', ''/a/b'']) ''/a/b'')) = [3, 2]
   \<and> map routeCandidate.literalCount
         (fst (selectRoutes_loop (example_dispatcher ''/'' [''/a/{var}'', ''/a/b'']) ''/a/b'')) = [1, 2]"
proof -
  have rv: "relativePath (example_route ''/a/{var}'') = ''/a/{var}''"
    and rl: "relativePath (example_route ''/a/b'') = ''/a/b''"
    by (simp_all add: example_route_def)
  have l1: "fst (selectRoutes_loop (example_dispatcher ''/'' [''/a/{var}'', ''/a/b'']) ''/a/b'')
      = [\<lparr>route = example_route ''/a/{var}'', regexpression = ''/a/([^/]+?)(/.*)?'', matchesCount = 3,
             literalCount = 1, nonDefaultCount = 1\<rparr>,
         \<lparr>route = example_route ''/a/b'', regexpression = ''/a/b(/.*)?'', matchesCount = 2,
             literalCount = 2, nonDefaultCount = 0\<rparr>]"
    by (simp add: selectRoutes_loop_eq example_dispatcher_def cand_a_var[OF rv] cand_a_b[OF rl])
  have l2: "fst (selectRoutes_loop (example_dispatcher ''/'' [''/a/b'', ''/a/{var}'']) ''/a/b'')
      = [\<lparr>route = example_route ''/a/b'', regexpression = ''/a/b(/.*)?'', matchesCount = 2,
             literalCount = 2, nonDefaultCount = 0\<rparr>,
         \<lparr>route = example_route ''/a/{var}'', regexpression = ''/a/([^/]+?)(/.*)?'', matchesCount = 3,
             literalCount = 1, nonDefaultCount = 1\<rparr>]"
    by (simp add: selectRoutes_loop_eq example_dispatcher_def cand_a_var[OF rv] cand_a_b[OF rl])
  have 1: "selectRoutes (insertionSort sortableRouteCandidates_Less)
      (example_dispatcher ''/'' [''/a/{var}'', ''/a/b'']) ''/a/b''
     = Inr [example_route ''/a/{var}'']"
    unfolding selectRoutes_def l1
    by (simp add: insertionSort_def sortableRouteCandidates_Less_def)
  have 2: "selectRoutes (insertionSort sortableRouteCandidates_Less)
      (example_dispatcher ''/'' [''/a/b'', ''/a/{var}'']) ''/a/b''
     = Inr [example_route ''/a/{var}'']"
    unfolding selectRoutes_def l2
    by (simp add: insertionSort_def sortableRouteCandidates_Less_def)
  show ?thesis unfolding l1 using 1 2 by simp
qed

subsection \<open>C2\<close>

text \<open>
  Claim C2, as amended. Both comparators order the candidates by descending
  \<open>matchesCount\<close>, then descending \<open>literalCount\<close>, then descending
  \<open>nonDefaultCount\<close> (which holds the \<open>varCount\<close>). \<open>Less(j, i)\<close> depends only on the
  two elements; it is irreflexive, asymmetric and transitive, and two candidates are left
  unordered only when their three keys are equal: a strict total order on the key triples.
  Of two candidates equal on the first two keys, the one with the larger \<open>varCount\<close> is
  ordered before the other. After \<open>sort.Sort\<close> no element must sort before an earlier
  one, so the best candidate is first.
\<close>

theorem C2_comparator_descending_on_all_keys:
  "(sortableRouteCandidates_Less [a, b] 0 1 \<longleftrightarrow>
      routeCandidate.matchesCount b < routeCandidate.matchesCount a \<or>
      (routeCandidate.matchesCount b = routeCandidate.matchesCount a \<and>
       (routeCandidate.literalCount b < routeCandidate.literalCount a \<or>
        (routeCandidate.literalCount b = routeCandidate.literalCount a \<and>
         routeCandidate.nonDefaultCount b < routeCandidate.nonDefaultCount a))))
   \<and> sortableRouteCandidates_Less cs j i = sortableRouteCandidates_Less [cs ! j, cs ! i] 0 1
   \<and> \<not> sortableRouteCandidates_Less [a, a] 0 1
   \<and> (sortableRouteCandidates_Less [a, b] 0 1 \<longrightarrow> \<not> sortableRouteCandidates_Less [b, a] 0 1)
   \<and> (sortableRouteCandidates_Less [a, b] 0 1 \<and> sortableRouteCandidates_Less [b, c] 0 1
        \<longrightarrow> sortableRouteCandidates_Less [a, c] 0 1)
   \<and> (sortableRouteCandidates_Less [a, b] 0 1 \<or> sortableRouteCandidates_Less [b, a] 0 1 \<or>
        (routeCandidate.matchesCount a = routeCandidate.matchesCount b \<and>
         routeCandidate.literalCount a = routeCandidate.literalCount b \<and>
         routeCandidate.nonDefaultCount a = routeCandidate.nonDefaultCount b))
   \<and> (routeCandidate.matchesCount a = routeCandidate.matchesCount b \<and>
        routeCandidate.literalCount a = routeCandidate.literalCount b \<and>
        routeCandidate.nonDefaultCount b < routeCandidate.nonDefaultCount a
        \<longrightarrow> sortableRouteCandidates_Less [a, b] 0 1 \<and> \<not> sortableRouteCandidates_Less [b, a] 0 1)
   \<and> (sort_Sort_spec sortableRouteCandidates_Less srt \<and> p < q \<and> q < length cs
        \<longrightarrow> \<not> sortableRouteCandidates_Less [srt cs ! q, srt cs ! p] 0 1)
   \<and> (sortableCandidates_Less [a', b'] 0 1 \<longleftrightarrow>
      dispatcherCandidate.matchesCount b' < dispatcherCandidate.matchesCount a' \<or>
      (dispatcherCandidate.matchesCount b' = dispatcherCandidate.matchesCount a' \<and>
       (dispatcherCandidate.literalCount b' < dispatcherCandidate.literalCount a' \<or>
        (dispatcherCandidate.literalCount b' = dispatcherCandidate.literalCount a' \<and>
         dispatcherCandidate.nonDefaultCount b' < dispatcherCandidate.nonDefaultCount a'))))
   \<and> sortableCandidates_Less cs' j i = sortableCandidates_Less [cs' ! j, cs' ! i] 0 1
   \<and> \<not> sortableCandidates_Less [a', a'] 0 1
   \<and> (sortableCandidates_Less [a', b'] 0 1 \<longrightarrow> \<not> sortableCandidates_Less [b', a'] 0 1)
   \<and> (sortableCandidates_Less [a', b'] 0 1 \<and> sortableCandidates_Less [b', c'] 0 1
        \<longrightarrow> sortableCandidates_Less [a', c'] 0 1)
   \<and> (sortableCandidates_Less [a', b'] 0 1 \<or> sortableCandidates_Less [b', a'] 0 1 \<or>
        (dispatcherCandidate.matchesCount a' = dispatcherCandidate.matchesCount b' \<and>
         dispatcherCandidate.literalCount a' = dispatcherCandidate.literalCount b' \<and>
         dispatcherCandidate.nonDefaultCount a' = dispatcherCandidate.nonDefaultCount b'))
   \<and> (dispatcherCandidate.matchesCount a' = dispatcherCandidate.matchesCount b' \<and>
        dispatcherCandidate.literalCount a' = dispatcherCandidate.literalCount b' \<and>
        dispatcherCandidate.nonDefaultCount b' < dispatcherCandidate.nonDefaultCount a'
        \<longrightarrow> sortableCandidates_Less [a', b'] 0 1 \<and> \<not> sortableCandidates_Less [b', a'] 0 1)
   \<and> (sort_Sort_spec sortableCandidates_Less srt' \<and> p < q \<and> q < length cs'
        \<longrightarrow> \<not> sortableCandidates_Less [srt' cs' ! q, srt' cs' ! p] 0 1)"
proof -
  have r1: "sortableRouteCandidates_Less [a, b] 0 1 \<or> sortableRouteCandidates_Less [b, a] 0 1 \<or>
        (routeCandidate.matchesCount a = routeCandidate.matchesCount b \<and>
         routeCandidate.literalCount a = routeCandidate.literalCount b \<and>
         routeCandidate.nonDefaultCount a = routeCandidate.nonDefaultCount b)"
    unfolding route_Less_pair by linarith
  have r2: "routeCandidate.matchesCount a = routeCandidate.matchesCount b \<and>
        routeCandidate.literalCount a = routeCandidate.literalCount b \<and>
        routeCandidate.nonDefaultCount b < routeCandidate.nonDefaultCount a
        \<longrightarrow> sortableRouteCandidates_Less [a, b] 0 1 \<and> \<not> sortableRouteCandidates_Less [b, a] 0 1"
    unfolding route_Less_pair by linarith
  have r3: "sortableRouteCandidates_Less [a, b] 0 1 \<longrightarrow> \<not> sortableRouteCandidates_Less [b, a] 0 1"
    using route_Less_asym by blast
  have r4: "sortableRouteCandidates_Less [a, b] 0 1 \<and> sortableRouteCandidates_Less [b, c] 0 1
        \<longrightarrow> sortableRouteCandidates_Less [a, c] 0 1"
    using route_Less_trans by blast
  have r5: "sort_Sort_spec sortableRouteCandidates_Less srt \<and> p < q \<and> q < length cs
        \<longrightarrow> \<not> sortableRouteCandidates_Less [srt cs ! q, srt cs ! p] 0 1"
    using route_sorted_pairs by blast
  have d1: "sortableCandidates_Less [a', b'] 0 1 \<or> sortableCandidates_Less [b', a'] 0 1 \<or>
        (dispatcherCandidate.matchesCount a' = dispatcherCandidate.matchesCount b' \<and>
         dispatcherCandidate.literalCount a' = dispatcherCandidate.literalCount b' \<and>
         dispatcherCandidate.nonDefaultCount a' = dispatcherCandidate.nonDefaultCount b')"
    unfolding disp_Less_pair by linarith
  have d2: "dispatcherCandidate.matchesCount a' = dispatcherCandidate.matchesCount b' \<and>
        dispatcherCandidate.literalCount a' = dispatcherCandidate.literalCount b' \<and>
        dispatcherCandidate.nonDefaultCount b' < dispatcherCandidate.nonDefaultCount a'
        \<longrightarrow> sortableCandidates_Less [a', b'] 0 1 \<and> \<not> sortableCandidates_Less [b', a'] 0 1"
    unfolding disp_Less_pair by linarith
  have d3: "sortableCandidates_Less [a', b'] 0 1 \<longrightarrow> \<not> sortableCandidates_Less [b', a'] 0 1"
    using disp_Less_asym by blast
  have d4: "sortableCandidates_Less [a', b'] 0 1 \<and> sortableCandidates_Less [b', c'] 0 1
        \<longrightarrow> sortableCandidates_Less [a', c'] 0 1"
    using disp_Less_trans by blast
  have d5: "sort_Sort_spec sortableCandidates_Less srt' \<and> p < q \<and> q < length cs'
        \<longrightarrow> \<not> sortableCandidates_Less [srt' cs' ! q, srt' cs' ! p] 0 1"
    using disp_sorted_pairs by blast
  show ?thesis
    by (intro conjI)
       (rule route_Less_pair, rule route_Less_nth, rule route_Less_irrefl, rule r3, rule r4,
        rule r1, rule r2, rule r5,
        rule disp_Less_pair, rule disp_Less_nth, rule disp_Less_irrefl, rule d3, rule d4,
        rule d1, rule d2, rule d5)
qed

text \<open>Two candidates equal on the first two keys: the one with two variables sorts first.\<close>

theorem C2_witness:
  "sortableRouteCandidates_Less
     [example_routeCandidate ''/a/{x}/{y}'' 3 1 2, example_routeCandidate ''/a/{x}'' 3 1 1] 0 1
   \<and> insertionSort sortableRouteCandidates_Less
        [example_routeCandidate ''/a/{x}'' 3 1 1, example_routeCandidate ''/a/{x}/{y}'' 3 1 2] ! 0
      = example_routeCandidate ''/a/{x}/{y}'' 3 1 2
   \<and> sortableCandidates_Less
     [example_dispatcherCandidate ''/a'' 3 1 2, example_dispatcherCandidate ''/b'' 3 1 1] 0 1"
proof -
  let ?a = "example_routeCandidate ''/a/{x}/{y}'' 3 1 2"
  let ?b = "example_routeCandidate ''/a/{x}'' 3 1 1"
  let ?a' = "example_dispatcherCandidate ''/a'' 3 1 2"
  let ?b' = "example_dispatcherCandidate ''/b'' 3 1 1"
  note C2 = C2_comparator_descending_on_all_keys
    [of ?a ?b "[?b, ?a]" 1 0 ?a "insertionSort sortableRouteCandidates_Less" 0 1
        ?a' ?b' "[?b', ?a']" ?a' "insertionSort sortableCandidates_Less"]
  have keys: "routeCandidate.matchesCount ?a = routeCandidate.matchesCount ?b \<and>
        routeCandidate.literalCount ?a = routeCandidate.literalCount ?b \<and>
        routeCandidate.nonDefaultCount ?b < routeCandidate.nonDefaultCount ?a"
    by (simp add: example_routeCandidate_def)
  have keys': "dispatcherCandidate.matchesCount ?a' = dispatcherCandidate.matchesCount ?b' \<and>
        dispatcherCandidate.literalCount ?a' = dispatcherCandidate.literalCount ?b' \<and>
        dispatcherCandidate.nonDefaultCount ?b' < dispatcherCandidate.nonDefaultCount ?a'"
    by (simp add: example_dispatcherCandidate_def)
  have 1: "sortableRouteCandidates_Less [?a, ?b] 0 1" using C2 keys by blast
  have 3: "sortableCandidates_Less [?a', ?b'] 0 1" using C2 keys' by blast
  have 2: "insertionSort sortableRouteCandidates_Less [?b, ?a] ! 0 = ?a"
    using 1 by (simp add: insertionSort_def)
  from 1 2 3 show ?thesis by blast
qed

text \<open>The candidate with the smaller \<open>varCount\<close> is not ordered before the other; it is
  ordered after it. Two different candidates with the same three keys (those of
  \<open>/a/{x}\<close> and \<open>/{x}/b\<close> for the remainder \<open>/a/b\<close>) are not ordered at all.\<close>

theorem C2_counterexample:
  "routeCandidate.matchesCount (example_routeCandidate ''/a/{x}'' 3 1 1)
     = routeCandidate.matchesCount (example_routeCandidate ''/a/{x}/{y}'' 3 1 2)
   \<and> routeCandidate.literalCount (example_routeCandidate ''/a/{x}'' 3 1 1)
     = routeCandidate.literalCount (example_routeCandidate ''/a/{x}/{y}'' 3 1 2)
   \<and> routeCandidate.nonDefaultCount (example_routeCandidate ''/a/{x}'' 3 1 1)
     < routeCandidate.nonDefaultCount (example_routeCandidate ''/a/{x}/{y}'' 3 1 2)
   \<and> \<not> sortableRouteCandidates_Less
       [example_routeCandidate ''/a/{x}'' 3 1 1, example_routeCandidate ''/a/{x}/{y}'' 3 1 2] 0 1
   \<and> sortableRouteCandidates_Less
       [example_routeCandidate ''/a/{x}/{y}'' 3 1 2, example_routeCandidate ''/a/{x}'' 3 1 1] 0 1
   \<and> insertionSort sortableRouteCandidates_Less
       [example_routeCandidate ''/a/{x}'' 3 1 1, example_routeCandidate ''/a/{x}/{y}'' 3 1 2]
     = [example_routeCandidate ''/a/{x}/{y}'' 3 1 2, example_routeCandidate ''/a/{x}'' 3 1 1]
   \<and> example_routeCandidate ''/a/{x}'' 3 1 1 \<noteq> example_routeCandidate ''/{x}/b'' 3 1 1
   \<and> \<not> sortableRouteCandidates_Less
       [example_routeCandidate ''/a/{x}'' 3 1 1, example_routeCandidate ''/{x}/b'' 3 1 1] 0 1
   \<and> \<not> sortableRouteCandidates_Less
       [example_routeCandidate ''/{x}/b'' 3 1 1, example_routeCandidate ''/a/{x}'' 3 1 1] 0 1"
  by (simp add: example_routeCandidate_def example_route_def sortableRouteCandidates_Less_def
        insertionSort_def)

subsection \<open>C3\<close>

text \<open>
  Claim C3. A route of the dispatcher is a candidate of \<open>selectRoutes\<close> if and only if
  its compiled pattern matches the remainder and the last captured group is empty or
  \<open>/\<close>; for a remainder other than the empty one and \<open>/\<close>, every route returned is
  such a candidate. Template \<open>/x/{a}\<close> against the remainder \<open>/x/y/z\<close> matches
  with the groups \<open>y\<close> and \<open>/z\<close>, so of the routes \<open>/x/{a}\<close> and
  \<open>/x/{a}/{b}\<close> only the second is a candidate and is returned. But the test on the last
  group does not exclude every route that leaves a tail of the remainder unconsumed: the
  pattern has no anchors, so a match may end before the end of the remainder, and then the
  last group is empty. Template \<open>/x/{a}\<close> against the remainder \<open>/x/yy/z\<close> matches
  the text \<open>/x/y\<close> with the groups \<open>y\<close> and the empty one, the tail \<open>y/z\<close> is
  left over, and the route is a candidate and is returned.
\<close>

theorem C3_route_with_unconsumed_tail_is_accepted:
  "(each \<in> route ` set (fst (selectRoutes_loop d final)) \<longleftrightarrow>
      each \<in> set (Routes d) \<and>
      (\<exists>compiled matches.
         regexp_Compile (fst (templateToRegularExpression (relativePath each))) = Inr compiled
         \<and> FindStringSubmatch compiled final = Some matches
         \<and> (last matches = [] \<or> last matches = ''/'')))
   \<and> (sort_Sort_spec sortableRouteCandidates_Less srt \<and> final \<noteq> [] \<and> final \<noteq> ''/''
        \<and> selectRoutes srt d final = Inr rs
        \<longrightarrow> set rs \<subseteq> route ` set (fst (selectRoutes_loop d final)))
   \<and> (sort_Sort_spec sortableRouteCandidates_Less srt
        \<and> relativePath r1 = ''/x/{a}'' \<and> relativePath r2 = ''/x/{a}/{b}''
        \<and> Routes d' = [r1, r2]
        \<longrightarrow> regexp_Compile (fst (templateToRegularExpression (relativePath r1)))
              = Inr [Lit (CHR ''/''), Lit (CHR ''x''), Lit (CHR ''/''), VarGroup, RestGroup]
            \<and> FindStringSubmatch [Lit (CHR ''/''), Lit (CHR ''x''), Lit (CHR ''/''), VarGroup, RestGroup]
                 ''/x/y/z'' = Some [''/x/y/z'', ''y'', ''/z'']
            \<and> map route (fst (selectRoutes_loop d' ''/x/y/z'')) = [r2]
            \<and> selectRoutes srt d' ''/x/y/z'' = Inr [r2])
   \<and> (sort_Sort_spec sortableRouteCandidates_Less srt
        \<and> relativePath r = ''/x/{a}'' \<and> Routes dx = [r]
        \<longrightarrow> regexp_Compile (fst (templateToRegularExpression (relativePath r)))
              = Inr [Lit (CHR ''/''), Lit (CHR ''x''), Lit (CHR ''/''), VarGroup, RestGroup]
            \<and> FindStringSubmatch [Lit (CHR ''/''), Lit (CHR ''x''), Lit (CHR ''/''), VarGroup, RestGroup]
                 ''/x/yy/z'' = Some [''/x/y'', ''y'', []]
            \<and> ''/x/yy/z'' = ''/x/y'' @ ''y/z''
            \<and> map route (fst (selectRoutes_loop dx ''/x/yy/z'')) = [r]
            \<and> selectRoutes srt dx ''/x/yy/z'' = Inr [r])"
proof (intro conjI impI)
  show "each \<in> route ` set (fst (selectRoutes_loop d final)) \<longleftrightarrow>
      each \<in> set (Routes d) \<and>
      (\<exists>compiled matches.
         regexp_Compile (fst (templateToRegularExpression (relativePath each))) = Inr compiled
         \<and> FindStringSubmatch compiled final = Some matches
         \<and> (last matches = [] \<or> last matches = ''/''))"
    unfolding route_loop_routes route_candidates_accept by (rule refl)
next
  assume "sort_Sort_spec sortableRouteCandidates_Less srt \<and> final \<noteq> [] \<and> final \<noteq> ''/''
        \<and> selectRoutes srt d final = Inr rs"
  then show "set rs \<subseteq> route ` set (fst (selectRoutes_loop d final))"
    using selectRoutes_subset by blast
next
  assume a: "sort_Sort_spec sortableRouteCandidates_Less srt
        \<and> relativePath r1 = ''/x/{a}'' \<and> relativePath r2 = ''/x/{a}/{b}''
        \<and> Routes d' = [r1, r2]"
  then have spec: "sort_Sort_spec sortableRouteCandidates_Less srt"
    and r1: "relativePath r1 = ''/x/{a}''" and r2: "relativePath r2 = ''/x/{a}/{b}''"
    and routes: "Routes d' = [r1, r2]" by simp_all
  have nodes: "template_nodes ''/x/{a}''
      = [Lit (CHR ''/''), Lit (CHR ''x''), Lit (CHR ''/''), VarGroup, RestGroup]"
    by (simp add: nodes_eval)
  show "regexp_Compile (fst (templateToRegularExpression (relativePath r1)))
              = Inr [Lit (CHR ''/''), Lit (CHR ''x''), Lit (CHR ''/''), VarGroup, RestGroup]"
    unfolding r1 Compile_template[OF valid_xa] nodes by (rule refl)
  show "FindStringSubmatch [Lit (CHR ''/''), Lit (CHR ''x''), Lit (CHR ''/''), VarGroup, RestGroup]
                 ''/x/y/z'' = Some [''/x/y/z'', ''y'', ''/z'']"
    using find_xa_xyz unfolding nodes .
  have l: "fst (selectRoutes_loop d' ''/x/y/z'')
      = [\<lparr>route = r2, regexpression = ''/x/([^/]+?)/([^/]+?)(/.*)?'', matchesCount = 4,
          literalCount = 1, nonDefaultCount = 2\<rparr>]"
    by (simp add: selectRoutes_loop_eq routes cand_xa_xyz[OF r1] cand_xab_xyz[OF r2])
  show "map route (fst (selectRoutes_loop d' ''/x/y/z'')) = [r2]"
    unfolding l by simp
  have "selectRoutes srt d' ''/x/y/z''
      = Inr [route \<lparr>route = r2, regexpression = ''/x/([^/]+?)/([^/]+?)(/.*)?'', matchesCount = 4,
          literalCount = 1, nonDefaultCount = 2\<rparr>]"
    by (rule selectRoutes_single[OF spec _ _ l]) simp_all
  then show "selectRoutes srt d' ''/x/y/z'' = Inr [r2]" by simp
next
  assume a: "sort_Sort_spec sortableRouteCandidates_Less srt
        \<and> relativePath r = ''/x/{a}'' \<and> Routes dx = [r]"
  then have spec: "sort_Sort_spec sortableRouteCandidates_Less srt"
    and r: "relativePath r = ''/x/{a}''" and routes: "Routes dx = [r]" by simp_all
  have nodes: "template_nodes ''/x/{a}''
      = [Lit (CHR ''/''), Lit (CHR ''x''), Lit (CHR ''/''), VarGroup, RestGroup]"
    by (simp add: nodes_eval)
  show "regexp_Compile (fst (templateToRegularExpression (relativePath r)))
              = Inr [Lit (CHR ''/''), Lit (CHR ''x''), Lit (CHR ''/''), VarGroup, RestGroup]"
    unfolding r Compile_template[OF valid_xa] nodes by (rule refl)
  show "FindStringSubmatch [Lit (CHR ''/''), Lit (CHR ''x''), Lit (CHR ''/''), VarGroup, RestGroup]
                 ''/x/yy/z'' = Some [''/x/y'', ''y'', []]"
    using find_xa_xyyz unfolding nodes .
  show "''/x/yy/z'' = ''/x/y'' @ ''y/z''" by simp
  have l: "fst (selectRoutes_loop dx ''/x/yy/z'')
      = [\<lparr>route = r, regexpression = ''/x/([^/]+?)(/.*)?'', matchesCount = 3,
          literalCount = 1, nonDefaultCount = 1\<rparr>]"
    by (simp add: selectRoutes_loop_eq routes cand_xa_xyyz[OF r])
  show "map route (fst (selectRoutes_loop dx ''/x/yy/z'')) = [r]"
    unfolding l by simp
  have "selectRoutes srt dx ''/x/yy/z''
      = Inr [route \<lparr>route = r, regexpression = ''/x/([^/]+?)(/.*)?'', matchesCount = 3,
          literalCount = 1, nonDefaultCount = 1\<rparr>]"
    by (rule selectRoutes_single[OF spec _ _ l]) simp_all
  then show "selectRoutes srt dx ''/x/yy/z'' = Inr [r]" by simp
qed

text \<open>The theorem at the routes of the two examples, sorted by insertion.\<close>

theorem C3_witness:
  "selectRoutes (insertionSort sortableRouteCandidates_Less)
        (example_dispatcher ''/'' [''/x/{a}'']) ''/x/yy/z''
      = Inr [example_route ''/x/{a}'']
   \<and> selectRoutes (insertionSort sortableRouteCandidates_Less)
        (example_dispatcher ''/'' [''/x/{a}'', ''/x/{a}/{b}'']) ''/x/y/z''
      = Inr [example_route ''/x/{a}/{b}'']
   \<and> example_route ''/x/{a}''
        \<in> route ` set (fst (selectRoutes_loop (example_dispatcher ''/'' [''/x/{a}'']) ''/x/yy/z''))"
proof -
  let ?d = "example_dispatcher ''/'' [''/x/{a}'', ''/x/{a}/{b}'']"
  let ?dx = "example_dispatcher ''/'' [''/x/{a}'']"
  note C3 = C3_route_with_unconsumed_tail_is_accepted
    [of "example_route ''/x/{a}''" ?dx "''/x/yy/z''" "insertionSort sortableRouteCandidates_Less"
        "[example_route ''/x/{a}'']" "example_route ''/x/{a}''" "example_route ''/x/{a}/{b}''" ?d
        "example_route ''/x/{a}''" ?dx]
  have pre: "sort_Sort_spec sortableRouteCandidates_Less (insertionSort sortableRouteCandidates_Less)
        \<and> relativePath (example_route ''/x/{a}'') = ''/x/{a}''
        \<and> relativePath (example_route ''/x/{a}/{b}'') = ''/x/{a}/{b}''
        \<and> Routes ?d = [example_route ''/x/{a}'', example_route ''/x/{a}/{b}'']"
    using insertionSort_route_spec by (simp add: example_route_def example_dispatcher_def)
  have prex: "sort_Sort_spec sortableRouteCandidates_Less (insertionSort sortableRouteCandidates_Less)
        \<and> relativePath (example_route ''/x/{a}'') = ''/x/{a}''
        \<and> Routes ?dx = [example_route ''/x/{a}'']"
    using insertionSort_route_spec by (simp add: example_route_def example_dispatcher_def)
  note ex = C3[THEN conjunct2, THEN conjunct2, THEN conjunct1, THEN mp, OF pre]
  note exx = C3[THEN conjunct2, THEN conjunct2, THEN conjunct2, THEN mp, OF prex]
  have 1: "selectRoutes (insertionSort sortableRouteCandidates_Less) ?dx ''/x/yy/z''
      = Inr [example_route ''/x/{a}'']"
    by (rule exx[THEN conjunct2, THEN conjunct2, THEN conjunct2, THEN conjunct2])
  have 2: "selectRoutes (insertionSort sortableRouteCandidates_Less) ?d ''/x/y/z''
      = Inr [example_route ''/x/{a}/{b}'']"
    by (rule ex[THEN conjunct2, THEN conjunct2, THEN conjunct2])
  have "set [example_route ''/x/{a}'']
      \<subseteq> route ` set (fst (selectRoutes_loop ?dx ''/x/yy/z''))"
    by (rule C3[THEN conjunct2, THEN conjunct1, THEN mp])
       (simp add: 1 insertionSort_route_spec)
  then have 3: "example_route ''/x/{a}''
        \<in> route ` set (fst (selectRoutes_loop ?dx ''/x/yy/z''))"
    by simp
  from 1 2 3 show ?thesis by (intro conjI)
qed

subsection \<open>C4\<close>

text \<open>
  Claim C4. For every dispatcher, \<open>selectRoutes\<close> called with the empty remainder or
  with \<open>/\<close> returns the dispatcher's whole route list, in its order, with no error.
  The sorting function is arbitrary here and nothing is logged: neither compilation nor
  ranking takes part.
\<close>

theorem C4_root_remainder_returns_all_routes:
  "selectRoutes srt d [] = Inr (Routes d) \<and> selectRoutes srt d ''/'' = Inr (Routes d)
   \<and> selectRoutes_log d [] = [] \<and> selectRoutes_log d ''/'' = []"
  by (simp add: selectRoutes_def selectRoutes_log_def)

text \<open>A dispatcher with three routes, and a sorting function that would lose them all.\<close>

theorem C4_witness:
  "selectRoutes (\<lambda>cs. []) (example_dispatcher ''/'' [''/a/{var}'', ''/a/b'', ''/('']) ''/''
     = Inr [example_route ''/a/{var}'', example_route ''/a/b'', example_route ''/('']"
  using C4_root_remainder_returns_all_routes
    [of "\<lambda>cs. []" "example_dispatcher ''/'' [''/a/{var}'', ''/a/b'', ''/('']"]
  by (simp add: example_dispatcher_def)

subsection \<open>C5\<close>

text \<open>
  Claim C5. When \<open>selectRoutes\<close> has at least one candidate (and the sorting function
  keeps the promise of \<open>sort.Sort\<close>), it returns the routes of exactly those candidates
  whose \<open>regexpression\<close> equals that of the first candidate after sorting, each as often
  as it is a candidate; that first candidate is one no other candidate must sort before.
  Two routes of the dispatcher whose templates compile to the same pattern are returned
  together or not at all. \<open>/a/{x}\<close> and \<open>/a/{y}\<close> compile to the same pattern, and of
  the routes \<open>/a/{x}\<close>, \<open>/a/q\<close>, \<open>/a/{y}\<close> the remainder \<open>/a/q\<close> selects the
  first and the third.
\<close>

theorem C5_best_pattern_group:
  "(sort_Sort_spec sortableRouteCandidates_Less srt \<and> final \<noteq> [] \<and> final \<noteq> ''/''
      \<and> fst (selectRoutes_loop d final) \<noteq> [] \<longrightarrow>
      (let cs = fst (selectRoutes_loop d final);
           best = srt cs ! 0;
           rs = map route (filter (\<lambda>c. regexpression c = regexpression best) (srt cs))
       in selectRoutes srt d final = Inr rs
          \<and> mset rs = image_mset route
                        (filter_mset (\<lambda>c. regexpression c = regexpression best) (mset cs))
          \<and> best \<in> set cs
          \<and> (\<forall>c \<in> set cs. \<not> sortableRouteCandidates_Less [c, best] 0 1)
          \<and> (\<forall>r1 \<in> set (Routes d). \<forall>r2 \<in> set (Routes d).
                fst (templateToRegularExpression (relativePath r1))
                  = fst (templateToRegularExpression (relativePath r2))
                \<longrightarrow> (r1 \<in> set rs \<longleftrightarrow> r2 \<in> set rs))))
   \<and> fst (templateToRegularExpression ''/a/{x}'') = fst (templateToRegularExpression ''/a/{y}'')
   \<and> (sort_Sort_spec sortableRouteCandidates_Less srt
        \<and> relativePath rx = ''/a/{x}'' \<and> relativePath rq = ''/a/q'' \<and> relativePath ry = ''/a/{y}''
        \<and> Routes d' = [rx, rq, ry]
        \<longrightarrow> (\<exists>rs. selectRoutes srt d' ''/a/q'' = Inr rs \<and> mset rs = {#rx, ry#}))"
proof (intro conjI impI)
  assume a: "sort_Sort_spec sortableRouteCandidates_Less srt \<and> final \<noteq> [] \<and> final \<noteq> ''/''
      \<and> fst (selectRoutes_loop d final) \<noteq> []"
  then have spec: "sort_Sort_spec sortableRouteCandidates_Less srt"
    and f: "final \<noteq> []" "final \<noteq> ''/''" and ne: "fst (selectRoutes_loop d final) \<noteq> []"
    by simp_all
  show "let cs = fst (selectRoutes_loop d final);
           best = srt cs ! 0;
           rs = map route (filter (\<lambda>c. regexpression c = regexpression best) (srt cs))
       in selectRoutes srt d final = Inr rs
          \<and> mset rs = image_mset route
                        (filter_mset (\<lambda>c. regexpression c = regexpression best) (mset cs))
          \<and> best \<in> set cs
          \<and> (\<forall>c \<in> set cs. \<not> sortableRouteCandidates_Less [c, best] 0 1)
          \<and> (\<forall>r1 \<in> set (Routes d). \<forall>r2 \<in> set (Routes d).
                fst (templateToRegularExpression (relativePath r1))
                  = fst (templateToRegularExpression (relativePath r2))
                \<longrightarrow> (r1 \<in> set rs \<longleftrightarrow> r2 \<in> set rs))"
    unfolding Let_def
  proof (intro conjI ballI impI)
    show "selectRoutes srt d final =
           Inr (map route (filter (\<lambda>c. regexpression c
                    = regexpression (srt (fst (selectRoutes_loop d final)) ! 0))
                  (srt (fst (selectRoutes_loop d final)))))"
      using spec f ne by (rule selectRoutes_result(1))
    show "mset (map route (filter (\<lambda>c. regexpression c
                    = regexpression (srt (fst (selectRoutes_loop d final)) ! 0))
                  (srt (fst (selectRoutes_loop d final)))))
         = image_mset route (filter_mset (\<lambda>c. regexpression c
                    = regexpression (srt (fst (selectRoutes_loop d final)) ! 0))
                  (mset (fst (selectRoutes_loop d final))))"
      using spec f ne by (rule selectRoutes_result(2))
    show "srt (fst (selectRoutes_loop d final)) ! 0 \<in> set (fst (selectRoutes_loop d final))"
      using spec ne by (rule route_best(1))
  next
    fix c assume "c \<in> set (fst (selectRoutes_loop d final))"
    then show "\<not> sortableRouteCandidates_Less [c, srt (fst (selectRoutes_loop d final)) ! 0] 0 1"
      by (rule route_best(2)[OF spec ne])
  next
    fix r1 r2
    assume "r1 \<in> set (Routes d)" "r2 \<in> set (Routes d)"
      "fst (templateToRegularExpression (relativePath r1))
         = fst (templateToRegularExpression (relativePath r2))"
    then show "r1 \<in> set (map route (filter (\<lambda>c. regexpression c
                    = regexpression (srt (fst (selectRoutes_loop d final)) ! 0))
                  (srt (fst (selectRoutes_loop d final)))))
      \<longleftrightarrow> r2 \<in> set (map route (filter (\<lambda>c. regexpression c
                    = regexpression (srt (fst (selectRoutes_loop d final)) ! 0))
                  (srt (fst (selectRoutes_loop d final)))))"
      by (rule tie_group[OF spec])
  qed
next
  show "fst (templateToRegularExpression ''/a/{x}'') = fst (templateToRegularExpression ''/a/{y}'')"
    by (simp add: template_eval)
next
  assume a: "sort_Sort_spec sortableRouteCandidates_Less srt
        \<and> relativePath rx = ''/a/{x}'' \<and> relativePath rq = ''/a/q'' \<and> relativePath ry = ''/a/{y}''
        \<and> Routes d' = [rx, rq, ry]"
  then have spec: "sort_Sort_spec sortableRouteCandidates_Less srt"
    and rx: "relativePath rx = ''/a/{x}''" and rq: "relativePath rq = ''/a/q''"
    and ry: "relativePath ry = ''/a/{y}''" and routes: "Routes d' = [rx, rq, ry]"
    by simp_all
  define cx where "cx = \<lparr>route = rx, regexpression = ''/a/([^/]+?)(/.*)?'', matchesCount = 3,
       literalCount = 1, nonDefaultCount = 1\<rparr>"
  define cq where "cq = \<lparr>route = rq, regexpression = ''/a/q(/.*)?'', matchesCount = 2,
       literalCount = 2, nonDefaultCount = 0\<rparr>"
  define cy where "cy = \<lparr>route = ry, regexpression = ''/a/([^/]+?)(/.*)?'', matchesCount = 3,
       literalCount = 1, nonDefaultCount = 1\<rparr>"
  define cs where "cs = fst (selectRoutes_loop d' ''/a/q'')"
  have l: "cs = [cx, cq, cy]"
    by (simp add: cs_def selectRoutes_loop_eq routes cand_ax_aq[OF rx] cand_aq_aq[OF rq]
        cand_ay_aq[OF ry] cx_def cq_def cy_def)
  have ne: "cs \<noteq> []" by (simp add: l)
  have "srt cs ! 0 \<in> set cs" using spec ne by (rule route_best(1))
  moreover have "\<not> sortableRouteCandidates_Less [cx, srt cs ! 0] 0 1"
    using route_best(2)[OF spec ne, of cx] by (simp add: l)
  moreover have "sortableRouteCandidates_Less [cx, cq] 0 1"
    by (simp add: sortableRouteCandidates_Less_def cx_def cq_def)
  ultimately have "srt cs ! 0 = cx \<or> srt cs ! 0 = cy" unfolding l by auto
  then have best: "regexpression (srt cs ! 0) = ''/a/([^/]+?)(/.*)?''"
    by (auto simp: cx_def cy_def)
  have res: "selectRoutes srt d' ''/a/q''
      = Inr (map route (filter (\<lambda>c. regexpression c = regexpression (srt cs ! 0)) (srt cs)))"
    unfolding cs_def by (rule selectRoutes_result(1)[OF spec _ _ ne[unfolded cs_def]]) simp_all
  have fm: "image_mset route (filter_mset (\<lambda>c. regexpression c = ''/a/([^/]+?)(/.*)?'') (mset cs))
      = {#rx, ry#}"
    by (simp add: l cx_def cq_def cy_def)
  have "mset (map route (filter (\<lambda>c. regexpression c = regexpression (srt cs ! 0)) (srt cs)))
      = image_mset route (filter_mset (\<lambda>c. regexpression c = regexpression (srt cs ! 0)) (mset cs))"
    unfolding cs_def by (rule selectRoutes_result(2)[OF spec _ _ ne[unfolded cs_def]]) simp_all
  then have "mset (map route (filter (\<lambda>c. regexpression c = regexpression (srt cs ! 0)) (srt cs)))
      = {#rx, ry#}"
    unfolding best using fm by (rule trans)
  then show "\<exists>rs. selectRoutes srt d' ''/a/q'' = Inr rs \<and> mset rs = {#rx, ry#}"
    using res by blast
qed

text \<open>The theorem at the three routes of the example, sorted by insertion.\<close>

theorem C5_witness:
  "(\<exists>rs. selectRoutes (insertionSort sortableRouteCandidates_Less)
           (example_dispatcher ''/'' [''/a/{x}'', ''/a/q'', ''/a/{y}'']) ''/a/q'' = Inr rs
        \<and> mset rs = {#example_route ''/a/{x}'', example_route ''/a/{y}''#})
   \<and> (\<exists>rs. selectRoutes (insertionSort sortableRouteCandidates_Less)
           (example_dispatcher ''/'' [''/a/{x}'', ''/a/q'', ''/a/{y}'']) ''/a/q'' = Inr rs
        \<and> (example_route ''/a/{x}'' \<in> set rs \<longleftrightarrow> example_route ''/a/{y}'' \<in> set rs))"
proof -
  let ?d = "example_dispatcher ''/'' [''/a/{x}'', ''/a/q'', ''/a/{y}'']"
  let ?srt = "insertionSort sortableRouteCandidates_Less"
  note C5 = C5_best_pattern_group
          [of ?srt "''/a/q''" ?d
              "example_route ''/a/{x}''" "example_route ''/a/q''" "example_route ''/a/{y}''" ?d]
  have rx: "relativePath (example_route ''/a/{x}'') = ''/a/{x}''"
    and rq: "relativePath (example_route ''/a/q'') = ''/a/q''"
    and ry: "relativePath (example_route ''/a/{y}'') = ''/a/{y}''"
    and routes: "Routes ?d = [example_route ''/a/{x}'', example_route ''/a/q'', example_route ''/a/{y}'']"
    by (simp_all add: example_route_def example_dispatcher_def)
  have pre: "sort_Sort_spec sortableRouteCandidates_Less ?srt
        \<and> relativePath (example_route ''/a/{x}'') = ''/a/{x}''
        \<and> relativePath (example_route ''/a/q'') = ''/a/q''
        \<and> relativePath (example_route ''/a/{y}'') = ''/a/{y}''
        \<and> Routes ?d = [example_route ''/a/{x}'', example_route ''/a/q'', example_route ''/a/{y}'']"
    using insertionSort_route_spec rx rq ry routes by simp
  have 1: "\<exists>rs. selectRoutes ?srt ?d ''/a/q'' = Inr rs
        \<and> mset rs = {#example_route ''/a/{x}'', example_route ''/a/{y}''#}"
    by (rule C5[THEN conjunct2, THEN conjunct2, THEN mp, OF pre])
  have ne: "fst (selectRoutes_loop ?d ''/a/q'') \<noteq> []"
    by (simp add: selectRoutes_loop_eq routes cand_ax_aq[OF rx])
  have pre': "sort_Sort_spec sortableRouteCandidates_Less ?srt \<and> ''/a/q'' \<noteq> [] \<and> ''/a/q'' \<noteq> ''/''
      \<and> fst (selectRoutes_loop ?d ''/a/q'') \<noteq> []"
    using insertionSort_route_spec ne by simp
  note general = C5[THEN conjunct1, THEN mp, OF pre', unfolded Let_def]
  have same: "fst (templateToRegularExpression (relativePath (example_route ''/a/{x}'')))
      = fst (templateToRegularExpression (relativePath (example_route ''/a/{y}'')))"
    unfolding rx ry by (rule C5[THEN conjunct2, THEN conjunct1])
  have mx: "example_route ''/a/{x}'' \<in> set (Routes ?d)"
    and my: "example_route ''/a/{y}'' \<in> set (Routes ?d)"
    unfolding routes by simp_all
  note tie = general[THEN conjunct2, THEN conjunct2, THEN conjunct2, THEN conjunct2,
                     THEN bspec, OF mx, THEN bspec, OF my, THEN mp, OF same]
  have 2: "\<exists>rs. selectRoutes ?srt ?d ''/a/q'' = Inr rs
        \<and> (example_route ''/a/{x}'' \<in> set rs \<longleftrightarrow> example_route ''/a/{y}'' \<in> set rs)"
    by (rule exI, rule conjI, rule general[THEN conjunct1], rule tie)
  from 1 2 show ?thesis by (rule conjI)
qed

subsection \<open>C6\<close>

text \<open>
  Claim C6. \<open>detectDispatcher\<close> makes a candidate of every dispatcher whose compiled
  root template matches the request path, whatever the last captured group is, and records
  that group as \<open>finalMatch\<close>. When there are candidates it returns the dispatcher of
  the first candidate after sorting, with that candidate's \<open>finalMatch\<close>. The empty path
  is matched like any other: with the single root \<open>/x\<close> it is not found. For the roots
  \<open>/api\<close>, \<open>/api/users\<close>, \<open>/web\<close> and the path \<open>/api/users/7\<close> the
  candidates leave \<open>/users/7\<close> and \<open>/7\<close>, and \<open>/api/users\<close> is returned with
  \<open>/7\<close>.
\<close>

theorem C6_detectDispatcher_best_candidate:
  "(c \<in> set (fst (detectDispatcher_loop requestPath dispatchers)) \<longleftrightarrow>
      (\<exists>each \<in> set dispatchers. \<exists>compiled matches.
         regexp_Compile (fst (templateToRegularExpression (RootPath each))) = Inr compiled
         \<and> FindStringSubmatch compiled requestPath = Some matches
         \<and> c = \<lparr>dispatcher = each, finalMatch = last matches, matchesCount = length matches,
                 literalCount = fst (snd (templateToRegularExpression (RootPath each))),
                 nonDefaultCount = snd (snd (templateToRegularExpression (RootPath each)))\<rparr>))
   \<and> (sort_Sort_spec sortableCandidates_Less srt
        \<and> fst (detectDispatcher_loop requestPath dispatchers) \<noteq> [] \<longrightarrow>
        (let cs = fst (detectDispatcher_loop requestPath dispatchers); best = srt cs ! 0
         in detectDispatcher srt requestPath dispatchers = Inr (dispatcher best, finalMatch best)
            \<and> best \<in> set cs
            \<and> (\<forall>c' \<in> set cs. \<not> sortableCandidates_Less [c', best] 0 1)))
   \<and> (RootPath dx = ''/x'' \<longrightarrow> detectDispatcher srt [] [dx] = Inl (errors_New ''not found''))
   \<and> (sort_Sort_spec sortableCandidates_Less srt
        \<and> RootPath da = ''/api'' \<and> RootPath du = ''/api/users'' \<and> RootPath dw = ''/web''
        \<longrightarrow> map finalMatch (fst (detectDispatcher_loop ''/api/users/7'' [da, du, dw]))
              = [''/users/7'', ''/7'']
            \<and> detectDispatcher srt ''/api/users/7'' [da, du, dw] = Inr (du, ''/7''))"
proof (intro conjI impI)
  show "c \<in> set (fst (detectDispatcher_loop requestPath dispatchers)) \<longleftrightarrow>
      (\<exists>each \<in> set dispatchers. \<exists>compiled matches.
         regexp_Compile (fst (templateToRegularExpression (RootPath each))) = Inr compiled
         \<and> FindStringSubmatch compiled requestPath = Some matches
         \<and> c = \<lparr>dispatcher = each, finalMatch = last matches, matchesCount = length matches,
                 literalCount = fst (snd (templateToRegularExpression (RootPath each))),
                 nonDefaultCount = snd (snd (templateToRegularExpression (RootPath each)))\<rparr>)"
    unfolding disp_loop_member dispatcher_candidates_member by (rule refl)
next
  assume a: "sort_Sort_spec sortableCandidates_Less srt
        \<and> fst (detectDispatcher_loop requestPath dispatchers) \<noteq> []"
  then have spec: "sort_Sort_spec sortableCandidates_Less srt"
    and ne: "fst (detectDispatcher_loop requestPath dispatchers) \<noteq> []" by simp_all
  show "let cs = fst (detectDispatcher_loop requestPath dispatchers); best = srt cs ! 0
         in detectDispatcher srt requestPath dispatchers = Inr (dispatcher best, finalMatch best)
            \<and> best \<in> set cs
            \<and> (\<forall>c' \<in> set cs. \<not> sortableCandidates_Less [c', best] 0 1)"
    unfolding Let_def
  proof (intro conjI ballI)
    show "detectDispatcher srt requestPath dispatchers
       = Inr (dispatcher (srt (fst (detectDispatcher_loop requestPath dispatchers)) ! 0),
              finalMatch (srt (fst (detectDispatcher_loop requestPath dispatchers)) ! 0))"
      using ne by (rule detectDispatcher_result)
    show "srt (fst (detectDispatcher_loop requestPath dispatchers)) ! 0
            \<in> set (fst (detectDispatcher_loop requestPath dispatchers))"
      using spec ne by (rule disp_best(1))
  next
    fix c' assume "c' \<in> set (fst (detectDispatcher_loop requestPath dispatchers))"
    then show "\<not> sortableCandidates_Less
                  [c', srt (fst (detectDispatcher_loop requestPath dispatchers)) ! 0] 0 1"
      by (rule disp_best(2)[OF spec ne])
  qed
next
  assume "RootPath dx = ''/x''"
  then show "detectDispatcher srt [] [dx] = Inl (errors_New ''not found'')"
    by (simp add: detectDispatcher_def detectDispatcher_loop_eq dcand_x_empty)
next
  assume a: "sort_Sort_spec sortableCandidates_Less srt
        \<and> RootPath da = ''/api'' \<and> RootPath du = ''/api/users'' \<and> RootPath dw = ''/web''"
  then have spec: "sort_Sort_spec sortableCandidates_Less srt"
    and da: "RootPath da = ''/api''" and du: "RootPath du = ''/api/users''"
    and dw: "RootPath dw = ''/web''" by simp_all
  define ca where "ca = \<lparr>dispatcher = da, finalMatch = ''/users/7'', matchesCount = 2,
       literalCount = 3, nonDefaultCount = 0\<rparr>"
  define cu where "cu = \<lparr>dispatcher = du, finalMatch = ''/7'', matchesCount = 2,
       literalCount = 8, nonDefaultCount = 0\<rparr>"
  define cs where "cs = fst (detectDispatcher_loop ''/api/users/7'' [da, du, dw])"
  have l: "cs = [ca, cu]"
    by (simp add: cs_def detectDispatcher_loop_eq dcand_api[OF da] dcand_api_users[OF du]
        dcand_web[OF dw] ca_def cu_def)
  show "map finalMatch (fst (detectDispatcher_loop ''/api/users/7'' [da, du, dw]))
              = [''/users/7'', ''/7'']"
    using l by (simp add: cs_def ca_def cu_def)
  have ne: "cs \<noteq> []" by (simp add: l)
  have "srt cs ! 0 \<in> set cs" using spec ne by (rule disp_best(1))
  moreover have "\<not> sortableCandidates_Less [cu, srt cs ! 0] 0 1"
    using disp_best(2)[OF spec ne, of cu] by (simp add: l)
  moreover have "sortableCandidates_Less [cu, ca] 0 1"
    by (simp add: sortableCandidates_Less_def ca_def cu_def)
  ultimately have best: "srt cs ! 0 = cu" unfolding l by auto
  have "detectDispatcher srt ''/api/users/7'' [da, du, dw]
      = Inr (dispatcher (srt cs ! 0), finalMatch (srt cs ! 0))"
    unfolding cs_def using ne[unfolded cs_def] by (rule detectDispatcher_result)
  then show "detectDispatcher srt ''/api/users/7'' [da, du, dw] = Inr (du, ''/7'')"
    unfolding best by (simp add: cu_def)
qed

text \<open>The theorem at the dispatchers of the example, sorted by insertion.\<close>

theorem C6_witness:
  "detectDispatcher (insertionSort sortableCandidates_Less) ''/api/users/7''
      [example_dispatcher ''/api'' [], example_dispatcher ''/api/users'' [], example_dispatcher ''/web'' []]
     = Inr (example_dispatcher ''/api/users'' [], ''/7'')
   \<and> detectDispatcher (insertionSort sortableCandidates_Less) []
        [example_dispatcher ''/x'' []] = Inl (errors_New ''not found'')"
proof -
  note C6 = C6_detectDispatcher_best_candidate
    [of _ _ _ "insertionSort sortableCandidates_Less" "example_dispatcher ''/x'' []"
        "example_dispatcher ''/api'' []" "example_dispatcher ''/api/users'' []"
        "example_dispatcher ''/web'' []"]
  have pre: "sort_Sort_spec sortableCandidates_Less (insertionSort sortableCandidates_Less)
        \<and> RootPath (example_dispatcher ''/api'' []) = ''/api''
        \<and> RootPath (example_dispatcher ''/api/users'' []) = ''/api/users''
        \<and> RootPath (example_dispatcher ''/web'' []) = ''/web''"
    using insertionSort_disp_spec by (simp add: example_dispatcher_def)
  have px: "RootPath (example_dispatcher ''/x'' []) = ''/x''"
    by (simp add: example_dispatcher_def)
  have 1: "detectDispatcher (insertionSort sortableCandidates_Less) ''/api/users/7''
      [example_dispatcher ''/api'' [], example_dispatcher ''/api/users'' [], example_dispatcher ''/web'' []]
     = Inr (example_dispatcher ''/api/users'' [], ''/7'')"
    by (rule C6[THEN conjunct2, THEN conjunct2, THEN conjunct2, THEN mp, OF pre, THEN conjunct2])
  have 2: "detectDispatcher (insertionSort sortableCandidates_Less) []
        [example_dispatcher ''/x'' []] = Inl (errors_New ''not found'')"
    by (rule C6[THEN conjunct2, THEN conjunct2, THEN conjunct1, THEN mp, OF px])
  from 1 2 show ?thesis by (rule conjI)
qed

subsection \<open>C7\<close>

text \<open>
  Claim C7. For a remainder other than the empty one and \<open>/\<close>, \<open>selectRoutes\<close>
  returns the error "not found" if and only if no route is a candidate, that is, no route's
  pattern compiles and matches with a last group that is empty or \<open>/\<close>.
  \<open>detectDispatcher\<close> returns it if and only if no dispatcher's pattern compiles and
  matches, in particular for the empty list. Neither returns any other error. A template
  whose expression does not compile is logged and skipped: the log of either selector holds
  exactly the compile errors of the templates, each with its path and in the order of the
  list, and every candidate is a route or dispatcher of the list whose template compiles.
  The expression of a template compiles exactly when it is well-formed UTF-8. With the route
  templates \<open>/\<close>\<open>0xFF\<close> and \<open>/a\<close> and the remainder \<open>/a\<close>, the first
  template does not compile, one entry is logged for it and the route \<open>/a\<close> is
  returned; with the first route alone the result is "not found", not the compile error;
  the same holds for dispatchers.
\<close>

theorem C7_not_found_is_the_only_error:
  "(final \<noteq> [] \<and> final \<noteq> ''/'' \<longrightarrow>
      (selectRoutes srt d final = Inl (errors_New ''not found'')
         \<longleftrightarrow> fst (selectRoutes_loop d final) = []))
   \<and> (fst (selectRoutes_loop d final) = [] \<longleftrightarrow>
        \<not> (\<exists>each \<in> set (Routes d). \<exists>compiled matches.
             regexp_Compile (fst (templateToRegularExpression (relativePath each))) = Inr compiled
             \<and> FindStringSubmatch compiled final = Some matches
             \<and> (last matches = [] \<or> last matches = ''/'')))
   \<and> (\<forall>e. selectRoutes srt d final = Inl e \<longrightarrow> e = errors_New ''not found'')
   \<and> (detectDispatcher srt' requestPath dispatchers = Inl (errors_New ''not found'')
        \<longleftrightarrow> fst (detectDispatcher_loop requestPath dispatchers) = [])
   \<and> (fst (detectDispatcher_loop requestPath dispatchers) = [] \<longleftrightarrow>
        \<not> (\<exists>each \<in> set dispatchers. \<exists>compiled matches.
             regexp_Compile (fst (templateToRegularExpression (RootPath each))) = Inr compiled
             \<and> FindStringSubmatch compiled requestPath = Some matches))
   \<and> (\<forall>e. detectDispatcher srt' requestPath dispatchers = Inl e \<longrightarrow> e = errors_New ''not found'')
   \<and> detectDispatcher srt' requestPath [] = Inl (errors_New ''not found'')
   \<and> selectRoutes_log d final =
        (if final = [] \<or> final = ''/'' then []
         else concat (map (\<lambda>each.
                case regexp_Compile (fst (templateToRegularExpression (relativePath each))) of
                  Inl err \<Rightarrow> [(Path each, err)] | Inr compiled \<Rightarrow> []) (Routes d)))
   \<and> detectDispatcher_log requestPath dispatchers =
        concat (map (\<lambda>each.
           case regexp_Compile (fst (templateToRegularExpression (RootPath each))) of
             Inl err \<Rightarrow> [(RootPath each, err)] | Inr compiled \<Rightarrow> []) dispatchers)
   \<and> (\<forall>c \<in> set (fst (selectRoutes_loop d final)).
        route c \<in> set (Routes d)
        \<and> (\<exists>compiled. regexp_Compile (fst (templateToRegularExpression (relativePath (route c))))
               = Inr compiled))
   \<and> (\<forall>c \<in> set (fst (detectDispatcher_loop requestPath dispatchers)).
        dispatcher c \<in> set dispatchers
        \<and> (\<exists>compiled. regexp_Compile (fst (templateToRegularExpression (RootPath (dispatcher c))))
               = Inr compiled))
   \<and> ((\<exists>compiled. regexp_Compile (fst (templateToRegularExpression template)) = Inr compiled)
        \<longleftrightarrow> utf8_ValidString (fst (templateToRegularExpression template)))
   \<and> (\<not> utf8_ValidString (fst (templateToRegularExpression template))
        \<longrightarrow> regexp_Compile (fst (templateToRegularExpression template))
              = Inl (regexp_Error (fst (templateToRegularExpression template))))
   \<and> (sort_Sort_spec sortableRouteCandidates_Less srt
        \<and> relativePath rb = [CHR ''/'', CHR 0xFF] \<and> relativePath ra = ''/a''
        \<and> Routes d2 = [rb, ra] \<and> Routes d1 = [rb]
        \<longrightarrow> regexp_Compile (fst (templateToRegularExpression (relativePath rb)))
              = Inl (regexp_Error (CHR ''/'' # CHR 0xFF # ''(/.*)?''))
            \<and> selectRoutes srt d2 ''/a'' = Inr [ra]
            \<and> selectRoutes_log d2 ''/a''
                = [(Path rb, regexp_Error (CHR ''/'' # CHR 0xFF # ''(/.*)?''))]
            \<and> selectRoutes srt d1 ''/a'' = Inl (errors_New ''not found'')
            \<and> selectRoutes_log d1 ''/a''
                = [(Path rb, regexp_Error (CHR ''/'' # CHR 0xFF # ''(/.*)?''))])
   \<and> (sort_Sort_spec sortableCandidates_Less srt'
        \<and> RootPath db = [CHR ''/'', CHR 0xFF] \<and> RootPath da = ''/a''
        \<longrightarrow> detectDispatcher srt' ''/a/x'' [db, da] = Inr (da, ''/x'')
            \<and> detectDispatcher_log ''/a/x'' [db, da]
                = [(RootPath db, regexp_Error (CHR ''/'' # CHR 0xFF # ''(/.*)?''))]
            \<and> detectDispatcher srt' ''/a/x'' [db] = Inl (errors_New ''not found'')
            \<and> detectDispatcher_log ''/a/x'' [db]
                = [(RootPath db, regexp_Error (CHR ''/'' # CHR 0xFF # ''(/.*)?''))])"
proof (intro conjI)
  show "final \<noteq> [] \<and> final \<noteq> ''/'' \<longrightarrow>
      (selectRoutes srt d final = Inl (errors_New ''not found'')
         \<longleftrightarrow> fst (selectRoutes_loop d final) = [])"
    by (simp add: selectRoutes_def Let_def)
  show "fst (selectRoutes_loop d final) = [] \<longleftrightarrow>
        \<not> (\<exists>each \<in> set (Routes d). \<exists>compiled matches.
             regexp_Compile (fst (templateToRegularExpression (relativePath each))) = Inr compiled
             \<and> FindStringSubmatch compiled final = Some matches
             \<and> (last matches = [] \<or> last matches = ''/''))"
    by (rule route_loop_empty)
  show "\<forall>e. selectRoutes srt d final = Inl e \<longrightarrow> e = errors_New ''not found''"
    by (simp add: selectRoutes_def Let_def)
  show "detectDispatcher srt' requestPath dispatchers = Inl (errors_New ''not found'')
        \<longleftrightarrow> fst (detectDispatcher_loop requestPath dispatchers) = []"
    by (simp add: detectDispatcher_def Let_def)
  show "fst (detectDispatcher_loop requestPath dispatchers) = [] \<longleftrightarrow>
        \<not> (\<exists>each \<in> set dispatchers. \<exists>compiled matches.
             regexp_Compile (fst (templateToRegularExpression (RootPath each))) = Inr compiled
             \<and> FindStringSubmatch compiled requestPath = Some matches)"
    by (rule disp_loop_empty)
  show "\<forall>e. detectDispatcher srt' requestPath dispatchers = Inl e \<longrightarrow> e = errors_New ''not found''"
    by (simp add: detectDispatcher_def Let_def)
  show "detectDispatcher srt' requestPath [] = Inl (errors_New ''not found'')"
    by (simp add: detectDispatcher_def detectDispatcher_loop_def)
  show "selectRoutes_log d final =
        (if final = [] \<or> final = ''/'' then []
         else concat (map (\<lambda>each.
                case regexp_Compile (fst (templateToRegularExpression (relativePath each))) of
                  Inl err \<Rightarrow> [(Path each, err)] | Inr compiled \<Rightarrow> []) (Routes d)))"
    by (rule selectRoutes_log_eq)
  show "detectDispatcher_log requestPath dispatchers =
        concat (map (\<lambda>each.
           case regexp_Compile (fst (templateToRegularExpression (RootPath each))) of
             Inl err \<Rightarrow> [(RootPath each, err)] | Inr compiled \<Rightarrow> []) dispatchers)"
    by (rule detectDispatcher_log_eq)
  show "\<forall>c \<in> set (fst (selectRoutes_loop d final)).
        route c \<in> set (Routes d)
        \<and> (\<exists>compiled. regexp_Compile (fst (templateToRegularExpression (relativePath (route c))))
               = Inr compiled)"
    using route_loop_compiles by blast
  show "\<forall>c \<in> set (fst (detectDispatcher_loop requestPath dispatchers)).
        dispatcher c \<in> set dispatchers
        \<and> (\<exists>compiled. regexp_Compile (fst (templateToRegularExpression (RootPath (dispatcher c))))
               = Inr compiled)"
    using disp_loop_compiles by blast
  show "(\<exists>compiled. regexp_Compile (fst (templateToRegularExpression template)) = Inr compiled)
        \<longleftrightarrow> utf8_ValidString (fst (templateToRegularExpression template))"
    by (simp add: Compile_template_Inr)
  show "\<not> utf8_ValidString (fst (templateToRegularExpression template))
        \<longrightarrow> regexp_Compile (fst (templateToRegularExpression template))
              = Inl (regexp_Error (fst (templateToRegularExpression template)))"
    by (simp add: Compile_template_cases)
  show "sort_Sort_spec sortableRouteCandidates_Less srt
        \<and> relativePath rb = [CHR ''/'', CHR 0xFF] \<and> relativePath ra = ''/a''
        \<and> Routes d2 = [rb, ra] \<and> Routes d1 = [rb]
        \<longrightarrow> regexp_Compile (fst (templateToRegularExpression (relativePath rb)))
              = Inl (regexp_Error (CHR ''/'' # CHR 0xFF # ''(/.*)?''))
            \<and> selectRoutes srt d2 ''/a'' = Inr [ra]
            \<and> selectRoutes_log d2 ''/a''
                = [(Path rb, regexp_Error (CHR ''/'' # CHR 0xFF # ''(/.*)?''))]
            \<and> selectRoutes srt d1 ''/a'' = Inl (errors_New ''not found'')
            \<and> selectRoutes_log d1 ''/a''
                = [(Path rb, regexp_Error (CHR ''/'' # CHR 0xFF # ''(/.*)?''))]"
  proof (intro impI conjI)
    assume a: "sort_Sort_spec sortableRouteCandidates_Less srt
        \<and> relativePath rb = [CHR ''/'', CHR 0xFF] \<and> relativePath ra = ''/a''
        \<and> Routes d2 = [rb, ra] \<and> Routes d1 = [rb]"
    then have spec: "sort_Sort_spec sortableRouteCandidates_Less srt"
      and rb: "relativePath rb = [CHR ''/'', CHR 0xFF]" and ra: "relativePath ra = ''/a''"
      and d2: "Routes d2 = [rb, ra]" and d1: "Routes d1 = [rb]" by simp_all
    show "regexp_Compile (fst (templateToRegularExpression (relativePath rb)))
              = Inl (regexp_Error (CHR ''/'' # CHR 0xFF # ''(/.*)?''))"
      unfolding rb by (rule compile_bad)
    have l2: "fst (selectRoutes_loop d2 ''/a'')
        = [\<lparr>route = ra, regexpression = ''/a(/.*)?'', matchesCount = 2,
            literalCount = 1, nonDefaultCount = 0\<rparr>]"
      by (simp add: selectRoutes_loop_eq d2 cand_bad[OF rb] cand_a_a[OF ra])
    have "selectRoutes srt d2 ''/a''
        = Inr [route \<lparr>route = ra, regexpression = ''/a(/.*)?'', matchesCount = 2,
            literalCount = 1, nonDefaultCount = 0\<rparr>]"
      by (rule selectRoutes_single[OF spec _ _ l2]) simp_all
    then show "selectRoutes srt d2 ''/a'' = Inr [ra]" by simp
    show "selectRoutes_log d2 ''/a''
                = [(Path rb, regexp_Error (CHR ''/'' # CHR 0xFF # ''(/.*)?''))]"
      by (simp add: selectRoutes_log_def selectRoutes_loop_eq d2 logged_bad[OF rb] logged_a[OF ra])
    have l1: "fst (selectRoutes_loop d1 ''/a'') = []"
      by (simp add: selectRoutes_loop_eq d1 cand_bad[OF rb])
    show "selectRoutes srt d1 ''/a'' = Inl (errors_New ''not found'')"
      by (simp add: selectRoutes_def l1)
    show "selectRoutes_log d1 ''/a''
                = [(Path rb, regexp_Error (CHR ''/'' # CHR 0xFF # ''(/.*)?''))]"
      by (simp add: selectRoutes_log_def selectRoutes_loop_eq d1 logged_bad[OF rb])
  qed
  show "sort_Sort_spec sortableCandidates_Less srt'
        \<and> RootPath db = [CHR ''/'', CHR 0xFF] \<and> RootPath da = ''/a''
        \<longrightarrow> detectDispatcher srt' ''/a/x'' [db, da] = Inr (da, ''/x'')
            \<and> detectDispatcher_log ''/a/x'' [db, da]
                = [(RootPath db, regexp_Error (CHR ''/'' # CHR 0xFF # ''(/.*)?''))]
            \<and> detectDispatcher srt' ''/a/x'' [db] = Inl (errors_New ''not found'')
            \<and> detectDispatcher_log ''/a/x'' [db]
                = [(RootPath db, regexp_Error (CHR ''/'' # CHR 0xFF # ''(/.*)?''))]"
  proof (intro impI conjI)
    assume a: "sort_Sort_spec sortableCandidates_Less srt'
        \<and> RootPath db = [CHR ''/'', CHR 0xFF] \<and> RootPath da = ''/a''"
    then have spec: "sort_Sort_spec sortableCandidates_Less srt'"
      and db: "RootPath db = [CHR ''/'', CHR 0xFF]" and da: "RootPath da = ''/a''" by simp_all
    let ?c = "\<lparr>dispatcher = da, finalMatch = ''/x'', matchesCount = 2,
                literalCount = 1, nonDefaultCount = 0\<rparr>"
    have l2: "fst (detectDispatcher_loop ''/a/x'' [db, da]) = [?c]"
      by (simp add: detectDispatcher_loop_eq dcand_bad[OF db] dcand_a_ax[OF da])
    have "mset (srt' [?c]) = {#?c#}" using spec_mset[OF spec, of "[?c]"] by simp
    then have s: "srt' [?c] = [?c]" by (rule mset_single_list)
    show "detectDispatcher srt' ''/a/x'' [db, da] = Inr (da, ''/x'')"
      unfolding detectDispatcher_def Let_def l2 s by simp
    show "detectDispatcher_log ''/a/x'' [db, da]
                = [(RootPath db, regexp_Error (CHR ''/'' # CHR 0xFF # ''(/.*)?''))]"
      by (simp add: detectDispatcher_log_def detectDispatcher_loop_eq dlogged_bad[OF db]
            dlogged_a[OF da])
    have l1: "fst (detectDispatcher_loop ''/a/x'' [db]) = []"
      by (simp add: detectDispatcher_loop_eq dcand_bad[OF db])
    show "detectDispatcher srt' ''/a/x'' [db] = Inl (errors_New ''not found'')"
      by (simp add: detectDispatcher_def l1)
    show "detectDispatcher_log ''/a/x'' [db]
                = [(RootPath db, regexp_Error (CHR ''/'' # CHR 0xFF # ''(/.*)?''))]"
      by (simp add: detectDispatcher_log_def detectDispatcher_loop_eq dlogged_bad[OF db])
  qed
qed

text \<open>Routes and dispatchers that do not match \<open>/x\<close>, the empty list, and a template
  that does not compile, beside one that does and alone.\<close>

theorem C7_witness:
  "selectRoutes (insertionSort sortableRouteCandidates_Less)
       (example_dispatcher ''/'' [''/a/b'', ''/c'']) ''/x'' = Inl (errors_New ''not found'')
   \<and> detectDispatcher (insertionSort sortableCandidates_Less) ''/x''
       [example_dispatcher ''/a'' [], example_dispatcher ''/b/{c}'' []] = Inl (errors_New ''not found'')
   \<and> detectDispatcher (insertionSort sortableCandidates_Less) ''/x'' [] = Inl (errors_New ''not found'')
   \<and> selectRoutes (insertionSort sortableRouteCandidates_Less)
       (example_dispatcher ''/'' [[CHR ''/'', CHR 0xFF], ''/a'']) ''/a'' = Inr [example_route ''/a'']
   \<and> selectRoutes_log (example_dispatcher ''/'' [[CHR ''/'', CHR 0xFF], ''/a'']) ''/a'' = [([CHR ''/'', CHR 0xFF], regexp_Error (CHR ''/'' # CHR 0xFF # ''(/.*)?''))]
   \<and> selectRoutes (insertionSort sortableRouteCandidates_Less)
       (example_dispatcher ''/'' [[CHR ''/'', CHR 0xFF]]) ''/a'' = Inl (errors_New ''not found'')
   \<and> detectDispatcher (insertionSort sortableCandidates_Less) ''/a/x''
       [example_dispatcher ([CHR ''/'', CHR 0xFF]) [], example_dispatcher ''/a'' []]
      = Inr (example_dispatcher ''/a'' [], ''/x'')
   \<and> detectDispatcher_log ''/a/x'' [example_dispatcher ([CHR ''/'', CHR 0xFF]) [], example_dispatcher ''/a'' []]
      = [([CHR ''/'', CHR 0xFF], regexp_Error (CHR ''/'' # CHR 0xFF # ''(/.*)?''))]"
proof -
  let ?d2 = "example_dispatcher ''/'' [[CHR ''/'', CHR 0xFF], ''/a'']"
  let ?d1 = "example_dispatcher ''/'' [[CHR ''/'', CHR 0xFF]]"
  let ?db = "example_dispatcher ([CHR ''/'', CHR 0xFF]) []"
  let ?da = "example_dispatcher ''/a'' []"
  have l1: "fst (selectRoutes_loop (example_dispatcher ''/'' [''/a/b'', ''/c'']) ''/x'') = []"
    by (simp add: selectRoutes_loop_eq example_dispatcher_def cand_ab_x cand_c_x example_route_def)
  have l2: "fst (detectDispatcher_loop ''/x''
              [example_dispatcher ''/a'' [], example_dispatcher ''/b/{c}'' []]) = []"
    by (simp add: detectDispatcher_loop_eq example_dispatcher_def dcand_a_x dcand_bc_x)
  note C7 = C7_not_found_is_the_only_error
    [where final = "''/x''" and srt = "insertionSort sortableRouteCandidates_Less"
       and d = "example_dispatcher ''/'' [''/a/b'', ''/c'']"
       and srt' = "insertionSort sortableCandidates_Less" and requestPath = "''/x''"
       and dispatchers = "[example_dispatcher ''/a'' [], example_dispatcher ''/b/{c}'' []]"
       and rb = "example_route ([CHR ''/'', CHR 0xFF])" and ra = "example_route ''/a''"
       and ?d2.0 = ?d2 and ?d1.0 = ?d1 and db = ?db and da = ?da]
  note C7_1 = C7[THEN conjunct1]
  note C7_4 = C7[THEN conjunct2, THEN conjunct2, THEN conjunct2, THEN conjunct1]
  note C7_7 = C7[THEN conjunct2, THEN conjunct2, THEN conjunct2, THEN conjunct2, THEN conjunct2, THEN conjunct2, THEN conjunct1]
  note C7_14 = C7[THEN conjunct2, THEN conjunct2, THEN conjunct2, THEN conjunct2, THEN conjunct2, THEN conjunct2, THEN conjunct2, THEN conjunct2, THEN conjunct2, THEN conjunct2, THEN conjunct2, THEN conjunct2, THEN conjunct2, THEN conjunct1]
  note C7_15 = C7[THEN conjunct2, THEN conjunct2, THEN conjunct2, THEN conjunct2, THEN conjunct2, THEN conjunct2, THEN conjunct2, THEN conjunct2, THEN conjunct2, THEN conjunct2, THEN conjunct2, THEN conjunct2, THEN conjunct2, THEN conjunct2]
  have 1: "selectRoutes (insertionSort sortableRouteCandidates_Less)
       (example_dispatcher ''/'' [''/a/b'', ''/c'']) ''/x'' = Inl (errors_New ''not found'')"
    using C7_1 l1 by simp
  have 2: "detectDispatcher (insertionSort sortableCandidates_Less) ''/x''
       [example_dispatcher ''/a'' [], example_dispatcher ''/b/{c}'' []] = Inl (errors_New ''not found'')"
    using C7_4 l2 by simp
  have 3: "detectDispatcher (insertionSort sortableCandidates_Less) ''/x'' [] = Inl (errors_New ''not found'')"
    by (rule C7_7)
  have pre: "sort_Sort_spec sortableRouteCandidates_Less (insertionSort sortableRouteCandidates_Less)
        \<and> relativePath (example_route ([CHR ''/'', CHR 0xFF])) = [CHR ''/'', CHR 0xFF]
        \<and> relativePath (example_route ''/a'') = ''/a''
        \<and> Routes ?d2 = [example_route ([CHR ''/'', CHR 0xFF]), example_route ''/a'']
        \<and> Routes ?d1 = [example_route ([CHR ''/'', CHR 0xFF])]"
    using insertionSort_route_spec by (simp add: example_route_def example_dispatcher_def)
  note r = C7_14[THEN mp, OF pre]
  have pre': "sort_Sort_spec sortableCandidates_Less (insertionSort sortableCandidates_Less)
        \<and> RootPath ?db = [CHR ''/'', CHR 0xFF] \<and> RootPath ?da = ''/a''"
    using insertionSort_disp_spec by (simp add: example_dispatcher_def)
  note q = C7_15[THEN mp, OF pre']
  have 4: "selectRoutes (insertionSort sortableRouteCandidates_Less) ?d2 ''/a''
      = Inr [example_route ''/a'']"
    by (rule r[THEN conjunct2, THEN conjunct1])
  have "selectRoutes_log ?d2 ''/a'' = [(Path (example_route ([CHR ''/'', CHR 0xFF])), regexp_Error (CHR ''/'' # CHR 0xFF # ''(/.*)?''))]"
    by (rule r[THEN conjunct2, THEN conjunct2, THEN conjunct1])
  then have 5: "selectRoutes_log ?d2 ''/a'' = [([CHR ''/'', CHR 0xFF], regexp_Error (CHR ''/'' # CHR 0xFF # ''(/.*)?''))]"
    by (simp add: example_route_def)
  have 6: "selectRoutes (insertionSort sortableRouteCandidates_Less) ?d1 ''/a''
      = Inl (errors_New ''not found'')"
    by (rule r[THEN conjunct2, THEN conjunct2, THEN conjunct2, THEN conjunct1])
  have 7: "detectDispatcher (insertionSort sortableCandidates_Less) ''/a/x'' [?db, ?da]
      = Inr (?da, ''/x'')"
    by (rule q[THEN conjunct1])
  have "detectDispatcher_log ''/a/x'' [?db, ?da] = [(RootPath ?db, regexp_Error (CHR ''/'' # CHR 0xFF # ''(/.*)?''))]"
    by (rule q[THEN conjunct2, THEN conjunct1])
  then have 8: "detectDispatcher_log ''/a/x'' [?db, ?da] = [([CHR ''/'', CHR 0xFF], regexp_Error (CHR ''/'' # CHR 0xFF # ''(/.*)?''))]"
    by (simp add: example_dispatcher_def)
  from 1 2 3 4 5 6 7 8 show ?thesis by (intro conjI)
qed

subsection \<open>C8\<close>

text \<open>
  Claim C8. The pattern of template \<open>/a.b\<close> is \<open>/a\.b(/.*)?\<close>: the dot is escaped
  and compiles to a literal character. The pattern matches \<open>/a.b\<close>, and every path
  \<open>/a.b/...\<close> with the remainder group \<open>/...\<close> (up to the end of the line); it does
  not match \<open>/aXb\<close>; and every path it matches contains the text \<open>/a.b\<close>, as every
  path matched by the pattern of a template without variable segments contains the
  template's segments, each after a \<open>/\<close>, as literal text. But these are not the only
  paths accepted: the pattern has no anchors and the search tries every position of the
  path, so \<open>/a.bc\<close> and \<open>/q/a.b\<close> match as well, both with the matched text
  \<open>/a.b\<close> and an empty remainder group, and \<open>selectRoutes\<close> returns the route
  \<open>/a.b\<close> for either remainder.
\<close>

theorem C8_pattern_accepts_other_paths:
  "fst (templateToRegularExpression ''/a.b'') = ''/a'' @ backslash # ''.b(/.*)?''
   \<and> regexp_Compile (fst (templateToRegularExpression ''/a.b''))
       = Inr [Lit (CHR ''/''), Lit (CHR ''a''), Lit (CHR ''.''), Lit (CHR ''b''), RestGroup]
   \<and> FindStringSubmatch [Lit (CHR ''/''), Lit (CHR ''a''), Lit (CHR ''.''), Lit (CHR ''b''), RestGroup]
        ''/a.b'' = Some [''/a.b'', []]
   \<and> FindStringSubmatch [Lit (CHR ''/''), Lit (CHR ''a''), Lit (CHR ''.''), Lit (CHR ''b''), RestGroup]
        ''/a.b/c'' = Some [''/a.b/c'', ''/c'']
   \<and> FindStringSubmatch [Lit (CHR ''/''), Lit (CHR ''a''), Lit (CHR ''.''), Lit (CHR ''b''), RestGroup]
        ''/aXb'' = None
   \<and> FindStringSubmatch [Lit (CHR ''/''), Lit (CHR ''a''), Lit (CHR ''.''), Lit (CHR ''b''), RestGroup]
        (''/a.b/'' @ rest)
       = Some [''/a.b/'' @ takeWhile (\<lambda>c. c \<noteq> newline) rest,
               ''/'' @ takeWhile (\<lambda>c. c \<noteq> newline) rest]
   \<and> (FindStringSubmatch [Lit (CHR ''/''), Lit (CHR ''a''), Lit (CHR ''.''), Lit (CHR ''b''), RestGroup]
        path = Some matches \<longrightarrow> (\<exists>pre post. path = pre @ ''/a.b'' @ post))
   \<and> ((\<forall>each \<in> set (strings_Split template (CHR ''/'')). \<not> strings_HasPrefix each ''{'')
        \<and> regexp_Compile (fst (templateToRegularExpression template)) = Inr compiled
        \<and> FindStringSubmatch compiled path = Some matches
        \<longrightarrow> (\<exists>pre post. path = pre @ concat (map ((#) (CHR ''/''))
               (filter (\<lambda>each. each \<noteq> []) (strings_Split template (CHR ''/'')))) @ post))
   \<and> FindStringSubmatch [Lit (CHR ''/''), Lit (CHR ''a''), Lit (CHR ''.''), Lit (CHR ''b''), RestGroup]
        ''/a.bc'' = Some [''/a.b'', []]
   \<and> FindStringSubmatch [Lit (CHR ''/''), Lit (CHR ''a''), Lit (CHR ''.''), Lit (CHR ''b''), RestGroup]
        ''/q/a.b'' = Some [''/a.b'', []]
   \<and> (sort_Sort_spec sortableRouteCandidates_Less srt
        \<and> relativePath r = ''/a.b'' \<and> Routes d = [r]
        \<longrightarrow> selectRoutes srt d ''/a.bc'' = Inr [r]
            \<and> selectRoutes srt d ''/q/a.b'' = Inr [r]
            \<and> selectRoutes srt d ''/aXb'' = Inl (errors_New ''not found''))"
proof (intro conjI impI)
  have c: "regexp_Compile (fst (templateToRegularExpression ''/a.b''))
       = Inr [Lit (CHR ''/''), Lit (CHR ''a''), Lit (CHR ''.''), Lit (CHR ''b''), RestGroup]"
    unfolding Compile_template[OF valid_a_dot_b] nodes_a_dot_b by (rule refl)
  show "fst (templateToRegularExpression ''/a.b'') = ''/a'' @ backslash # ''.b(/.*)?''"
    by (simp add: tmpl_a_dot_b)
  show "regexp_Compile (fst (templateToRegularExpression ''/a.b''))
       = Inr [Lit (CHR ''/''), Lit (CHR ''a''), Lit (CHR ''.''), Lit (CHR ''b''), RestGroup]"
    by (rule c)
  show "FindStringSubmatch [Lit (CHR ''/''), Lit (CHR ''a''), Lit (CHR ''.''), Lit (CHR ''b''), RestGroup]
        ''/a.b'' = Some [''/a.b'', []]"
    using find_a_dot_b(1) unfolding nodes_a_dot_b .
  show "FindStringSubmatch [Lit (CHR ''/''), Lit (CHR ''a''), Lit (CHR ''.''), Lit (CHR ''b''), RestGroup]
        ''/a.b/c'' = Some [''/a.b/c'', ''/c'']"
    using find_a_dot_b(2) unfolding nodes_a_dot_b .
  show "FindStringSubmatch [Lit (CHR ''/''), Lit (CHR ''a''), Lit (CHR ''.''), Lit (CHR ''b''), RestGroup]
        ''/aXb'' = None"
    using find_a_dot_b(3) unfolding nodes_a_dot_b .
  show "FindStringSubmatch [Lit (CHR ''/''), Lit (CHR ''a''), Lit (CHR ''.''), Lit (CHR ''b''), RestGroup]
        (''/a.b/'' @ rest)
       = Some [''/a.b/'' @ takeWhile (\<lambda>c. c \<noteq> newline) rest,
               ''/'' @ takeWhile (\<lambda>c. c \<noteq> newline) rest]"
    by (rule find_a_dot_b_subpath)
  show "\<exists>pre post. path = pre @ ''/a.b'' @ post"
    if m: "FindStringSubmatch [Lit (CHR ''/''), Lit (CHR ''a''), Lit (CHR ''.''), Lit (CHR ''b''), RestGroup]
        path = Some matches"
  proof -
    have novar: "\<forall>each \<in> set (strings_Split ''/a.b'' (CHR ''/'')). \<not> strings_HasPrefix each ''{''"
      by (simp add: strings_HasPrefix_def)
    have "\<exists>pre post. path = pre @ concat (map ((#) (CHR ''/''))
            (filter (\<lambda>each. each \<noteq> []) (strings_Split ''/a.b'' (CHR ''/'')))) @ post"
      using novar c m by (rule literal_template_matches)
    then show ?thesis by simp
  qed
  show "\<exists>pre post. path = pre @ concat (map ((#) (CHR ''/''))
               (filter (\<lambda>each. each \<noteq> []) (strings_Split template (CHR ''/'')))) @ post"
    if "(\<forall>each \<in> set (strings_Split template (CHR ''/'')). \<not> strings_HasPrefix each ''{'')
        \<and> regexp_Compile (fst (templateToRegularExpression template)) = Inr compiled
        \<and> FindStringSubmatch compiled path = Some matches"
    using that literal_template_matches by blast
  show "FindStringSubmatch [Lit (CHR ''/''), Lit (CHR ''a''), Lit (CHR ''.''), Lit (CHR ''b''), RestGroup]
        ''/a.bc'' = Some [''/a.b'', []]"
    using find_a_dot_b(4) unfolding nodes_a_dot_b .
  show "FindStringSubmatch [Lit (CHR ''/''), Lit (CHR ''a''), Lit (CHR ''.''), Lit (CHR ''b''), RestGroup]
        ''/q/a.b'' = Some [''/a.b'', []]"
    using find_a_dot_b(5) unfolding nodes_a_dot_b .
next
  assume a: "sort_Sort_spec sortableRouteCandidates_Less srt
        \<and> relativePath r = ''/a.b'' \<and> Routes d = [r]"
  then have spec: "sort_Sort_spec sortableRouteCandidates_Less srt"
    and r: "relativePath r = ''/a.b''" and routes: "Routes d = [r]" by simp_all
  let ?c = "\<lparr>route = r, regexpression = ''/a'' @ backslash # ''.b(/.*)?'', matchesCount = 2,
          literalCount = 3, nonDefaultCount = 0\<rparr>"
  have l1: "fst (selectRoutes_loop d ''/a.bc'') = [?c]"
    by (simp add: selectRoutes_loop_eq routes cand_a_dot_b(1)[OF r])
  have l2: "fst (selectRoutes_loop d ''/q/a.b'') = [?c]"
    by (simp add: selectRoutes_loop_eq routes cand_a_dot_b(2)[OF r])
  have l3: "fst (selectRoutes_loop d ''/aXb'') = []"
    by (simp add: selectRoutes_loop_eq routes cand_a_dot_b(3)[OF r])
  have "selectRoutes srt d ''/a.bc'' = Inr [route ?c]"
    by (rule selectRoutes_single[OF spec _ _ l1]) simp_all
  then show "selectRoutes srt d ''/a.bc'' = Inr [r]" by simp
  have "selectRoutes srt d ''/q/a.b'' = Inr [route ?c]"
    by (rule selectRoutes_single[OF spec _ _ l2]) simp_all
  then show "selectRoutes srt d ''/q/a.b'' = Inr [r]" by simp
  show "selectRoutes srt d ''/aXb'' = Inl (errors_New ''not found'')"
    by (simp add: selectRoutes_def l3)
qed

text \<open>The theorem at the route \<open>/a.b\<close>, sorted by insertion, and at the template
  \<open>/u/v.w\<close>.\<close>

theorem C8_witness:
  "selectRoutes (insertionSort sortableRouteCandidates_Less)
        (example_dispatcher ''/'' [''/a.b'']) ''/a.bc'' = Inr [example_route ''/a.b'']
   \<and> selectRoutes (insertionSort sortableRouteCandidates_Less)
        (example_dispatcher ''/'' [''/a.b'']) ''/q/a.b'' = Inr [example_route ''/a.b'']
   \<and> selectRoutes (insertionSort sortableRouteCandidates_Less)
        (example_dispatcher ''/'' [''/a.b'']) ''/aXb'' = Inl (errors_New ''not found'')
   \<and> (\<exists>pre post. ''/a.bc'' = pre @ ''/a.b'' @ post)
   \<and> (\<exists>pre post. ''/u/v.w/x'' = pre @ ''/u/v.w'' @ post)"
proof -
  let ?d = "example_dispatcher ''/'' [''/a.b'']"
  note C8 = C8_pattern_accepts_other_paths
    [where path = "''/a.bc''" and matches = "[''/a.b'', []]" and template = "''/u/v.w''"
       and compiled = "map Lit ''/u/v.w'' @ [RestGroup]"
       and srt = "insertionSort sortableRouteCandidates_Less"
       and r = "example_route ''/a.b''" and d = ?d]
  note C8' = C8_pattern_accepts_other_paths
    [where path = "''/u/v.w/x''" and matches = "[''/u/v.w/x'', ''/x'']" and template = "''/u/v.w''"
       and compiled = "map Lit ''/u/v.w'' @ [RestGroup]"]
  have pre: "sort_Sort_spec sortableRouteCandidates_Less (insertionSort sortableRouteCandidates_Less)
        \<and> relativePath (example_route ''/a.b'') = ''/a.b''
        \<and> Routes ?d = [example_route ''/a.b'']"
    using insertionSort_route_spec by (simp add: example_route_def example_dispatcher_def)
  note ex = C8[THEN conjunct2, THEN conjunct2, THEN conjunct2, THEN conjunct2, THEN conjunct2, THEN conjunct2, THEN conjunct2, THEN conjunct2, THEN conjunct2, THEN conjunct2, THEN mp, OF pre]
  have 1: "selectRoutes (insertionSort sortableRouteCandidates_Less) ?d ''/a.bc''
      = Inr [example_route ''/a.b'']"
    by (rule ex[THEN conjunct1])
  have 2: "selectRoutes (insertionSort sortableRouteCandidates_Less) ?d ''/q/a.b''
      = Inr [example_route ''/a.b'']"
    by (rule ex[THEN conjunct2, THEN conjunct1])
  have 3: "selectRoutes (insertionSort sortableRouteCandidates_Less) ?d ''/aXb''
      = Inl (errors_New ''not found'')"
    by (rule ex[THEN conjunct2, THEN conjunct2])
  have m: "FindStringSubmatch [Lit (CHR ''/''), Lit (CHR ''a''), Lit (CHR ''.''), Lit (CHR ''b''), RestGroup]
        ''/a.bc'' = Some [''/a.b'', []]"
    by (rule C8[THEN conjunct2, THEN conjunct2, THEN conjunct2, THEN conjunct2, THEN conjunct2, THEN conjunct2, THEN conjunct2, THEN conjunct2, THEN conjunct1])
  have 4: "\<exists>pre post. ''/a.bc'' = pre @ ''/a.b'' @ post"
    by (rule C8[THEN conjunct2, THEN conjunct2, THEN conjunct2, THEN conjunct2, THEN conjunct2, THEN conjunct2, THEN conjunct1, THEN mp, OF m])
  have pre': "(\<forall>each \<in> set (strings_Split ''/u/v.w'' (CHR ''/'')). \<not> strings_HasPrefix each ''{'')
        \<and> regexp_Compile (fst (templateToRegularExpression ''/u/v.w''))
            = Inr (map Lit ''/u/v.w'' @ [RestGroup])
        \<and> FindStringSubmatch (map Lit ''/u/v.w'' @ [RestGroup]) ''/u/v.w/x''
            = Some [''/u/v.w/x'', ''/x'']"
  proof (intro conjI)
    show "\<forall>each \<in> set (strings_Split ''/u/v.w'' (CHR ''/'')). \<not> strings_HasPrefix each ''{''"
      by (simp add: strings_HasPrefix_def)
    have v: "utf8_ValidString (fst (templateToRegularExpression ''/u/v.w''))"
      by (simp add: template_eval)
    show "regexp_Compile (fst (templateToRegularExpression ''/u/v.w''))
            = Inr (map Lit ''/u/v.w'' @ [RestGroup])"
      unfolding Compile_template[OF v] by (simp add: nodes_eval)
    show "FindStringSubmatch (map Lit ''/u/v.w'' @ [RestGroup]) ''/u/v.w/x''
            = Some [''/u/v.w/x'', ''/x'']"
      by (simp add: match_eval)
  qed
  have "\<exists>pre post. ''/u/v.w/x'' = pre @ concat (map ((#) (CHR ''/''))
               (filter (\<lambda>each. each \<noteq> []) (strings_Split ''/u/v.w'' (CHR ''/'')))) @ post"
    by (rule C8'[THEN conjunct2, THEN conjunct2, THEN conjunct2, THEN conjunct2, THEN conjunct2, THEN conjunct2, THEN conjunct2, THEN conjunct1, THEN mp, OF pre'])
  then have 5: "\<exists>pre post. ''/u/v.w/x'' = pre @ ''/u/v.w'' @ post" by simp
  from 1 2 3 4 5 show ?thesis by (intro conjI)
qed

subsection \<open>C9\<close>

text \<open>
  Claim C9. For a template none of whose \<open>/\<close>-separated segments starts with
  \<open>{\<close>, \<open>templateToRegularExpression\<close> returns \<open>varCount = 0\<close>, and
  \<open>literalCount\<close> is the sum of the lengths of the non-empty segments, which is the
  number of characters of the template other than \<open>/\<close>.
\<close>

theorem C9_literal_template_counts:
  assumes "\<forall>each \<in> set (strings_Split template (CHR ''/'')). \<not> strings_HasPrefix each ''{''"
  shows "snd (snd (templateToRegularExpression template)) = 0
    \<and> fst (snd (templateToRegularExpression template))
        = sum_list (map length (filter (\<lambda>each. each \<noteq> []) (strings_Split template (CHR ''/''))))
    \<and> fst (snd (templateToRegularExpression template))
        = length (filter (\<lambda>c. c \<noteq> CHR ''/'') template)"
proof -
  have novar: "filter (\<lambda>each. strings_HasPrefix each ''{'') (segments template) = []"
    using assms by (auto simp: segments_def filter_empty_conv)
  have lit: "filter (\<lambda>each. \<not> strings_HasPrefix each ''{'') (segments template) = segments template"
    unfolding segments_def filter_filter using assms by (intro filter_cong) auto
  have 1: "snd (snd (templateToRegularExpression template)) = 0"
    by (simp add: templateToRegularExpression_eq novar)
  have 2: "fst (snd (templateToRegularExpression template)) = sum_list (map length (segments template))"
    by (simp add: templateToRegularExpression_eq lit)
  have 3: "sum_list (map length (segments template)) = length (filter (\<lambda>c. c \<noteq> CHR ''/'') template)"
    by (rule segments_lengths)
  have 4: "segments template = filter (\<lambda>each. each \<noteq> []) (strings_Split template (CHR ''/''))"
    by (simp add: segments_def)
  show ?thesis using 1 2 3 unfolding 4 by simp
qed

text \<open>The template \<open>/a.b//cd/\<close> has five literal characters.\<close>

theorem C9_witness:
  "templateToRegularExpression ''/a.b//cd/'' = (CHR ''/'' # CHR ''a'' # backslash # ''.b/cd(/.*)?'', 5, 0)"
proof -
  have "\<forall>each \<in> set (strings_Split ''/a.b//cd/'' (CHR ''/'')). \<not> strings_HasPrefix each ''{''"
    by (simp add: strings_HasPrefix_def)
  from C9_literal_template_counts[OF this]
  have "snd (snd (templateToRegularExpression ''/a.b//cd/'')) = 0"
    and "fst (snd (templateToRegularExpression ''/a.b//cd/'')) = 5"
    by simp_all
  moreover have "fst (templateToRegularExpression ''/a.b//cd/'') = CHR ''/'' # CHR ''a'' # backslash # ''.b/cd(/.*)?''"
    by code_simp
  ultimately show ?thesis by (metis prod.collapse)
qed

subsection \<open>C10\<close>

text \<open>
  Claim C10. For every template, the expression of \<open>templateToRegularExpression\<close>
  compiles exactly when it is well-formed UTF-8, and then to a pattern with exactly
  \<open>varCount + 1\<close> capture groups, so every match has \<open>varCount + 2\<close> entries.
  Every candidate of either selector therefore has
  \<open>matchesCount = nonDefaultCount + 2\<close>; two candidates with equal \<open>matchesCount\<close>
  have equal \<open>nonDefaultCount\<close>, and between candidates \<open>Less\<close> is decided by
  \<open>matchesCount\<close> and \<open>literalCount\<close> alone.
\<close>

theorem C10_groups_and_tertiary_key:
  "((\<exists>compiled. regexp_Compile (fst (templateToRegularExpression template)) = Inr compiled)
      \<longleftrightarrow> utf8_ValidString (fst (templateToRegularExpression template)))
   \<and> (\<forall>compiled.
        regexp_Compile (fst (templateToRegularExpression template)) = Inr compiled
        \<longrightarrow> NumSubexp compiled = snd (snd (templateToRegularExpression template)) + 1
            \<and> (\<forall>s matches. FindStringSubmatch compiled s = Some matches
                  \<longrightarrow> length matches = snd (snd (templateToRegularExpression template)) + 2))
   \<and> (\<forall>a \<in> set (fst (selectRoutes_loop d final)).
        routeCandidate.matchesCount a = routeCandidate.nonDefaultCount a + 2
        \<and> (\<forall>b \<in> set (fst (selectRoutes_loop d final)).
             (routeCandidate.matchesCount a = routeCandidate.matchesCount b
                \<longrightarrow> routeCandidate.nonDefaultCount a = routeCandidate.nonDefaultCount b)
             \<and> (sortableRouteCandidates_Less [a, b] 0 1 \<longleftrightarrow>
                  routeCandidate.matchesCount b < routeCandidate.matchesCount a
                  \<or> (routeCandidate.matchesCount b = routeCandidate.matchesCount a
                      \<and> routeCandidate.literalCount b < routeCandidate.literalCount a))))
   \<and> (\<forall>a \<in> set (fst (detectDispatcher_loop requestPath dispatchers)).
        dispatcherCandidate.matchesCount a = dispatcherCandidate.nonDefaultCount a + 2
        \<and> (\<forall>b \<in> set (fst (detectDispatcher_loop requestPath dispatchers)).
             (dispatcherCandidate.matchesCount a = dispatcherCandidate.matchesCount b
                \<longrightarrow> dispatcherCandidate.nonDefaultCount a = dispatcherCandidate.nonDefaultCount b)
             \<and> (sortableCandidates_Less [a, b] 0 1 \<longleftrightarrow>
                  dispatcherCandidate.matchesCount b < dispatcherCandidate.matchesCount a
                  \<or> (dispatcherCandidate.matchesCount b = dispatcherCandidate.matchesCount a
                      \<and> dispatcherCandidate.literalCount b < dispatcherCandidate.literalCount a))))"
proof (intro conjI)
  show "(\<exists>compiled. regexp_Compile (fst (templateToRegularExpression template)) = Inr compiled)
      \<longleftrightarrow> utf8_ValidString (fst (templateToRegularExpression template))"
    by (simp add: Compile_template_Inr)
next
  show "\<forall>compiled.
        regexp_Compile (fst (templateToRegularExpression template)) = Inr compiled
        \<longrightarrow> NumSubexp compiled = snd (snd (templateToRegularExpression template)) + 1
            \<and> (\<forall>s matches. FindStringSubmatch compiled s = Some matches
                  \<longrightarrow> length matches = snd (snd (templateToRegularExpression template)) + 2)"
    using NumSubexp_template[of template] template_matches_length[of template]
    unfolding Compile_template_Inr by blast
next
  show "\<forall>a \<in> set (fst (selectRoutes_loop d final)).
        routeCandidate.matchesCount a = routeCandidate.nonDefaultCount a + 2
        \<and> (\<forall>b \<in> set (fst (selectRoutes_loop d final)).
             (routeCandidate.matchesCount a = routeCandidate.matchesCount b
                \<longrightarrow> routeCandidate.nonDefaultCount a = routeCandidate.nonDefaultCount b)
             \<and> (sortableRouteCandidates_Less [a, b] 0 1 \<longleftrightarrow>
                  routeCandidate.matchesCount b < routeCandidate.matchesCount a
                  \<or> (routeCandidate.matchesCount b = routeCandidate.matchesCount a
                      \<and> routeCandidate.literalCount b < routeCandidate.literalCount a)))"
  proof (intro ballI conjI)
    fix a b
    assume a: "a \<in> set (fst (selectRoutes_loop d final))"
      and b: "b \<in> set (fst (selectRoutes_loop d final))"
    have ca: "routeCandidate.matchesCount a = routeCandidate.nonDefaultCount a + 2"
      using a by (rule route_loop_counts)
    have cb: "routeCandidate.matchesCount b = routeCandidate.nonDefaultCount b + 2"
      using b by (rule route_loop_counts)
    show "routeCandidate.matchesCount a = routeCandidate.nonDefaultCount a + 2" by (rule ca)
    show "routeCandidate.matchesCount a = routeCandidate.matchesCount b
                \<longrightarrow> routeCandidate.nonDefaultCount a = routeCandidate.nonDefaultCount b"
      using ca cb by simp
    show "sortableRouteCandidates_Less [a, b] 0 1 \<longleftrightarrow>
                  routeCandidate.matchesCount b < routeCandidate.matchesCount a
                  \<or> (routeCandidate.matchesCount b = routeCandidate.matchesCount a
                      \<and> routeCandidate.literalCount b < routeCandidate.literalCount a)"
      unfolding route_Less_pair using ca cb by auto
  qed
next
  show "\<forall>a \<in> set (fst (detectDispatcher_loop requestPath dispatchers)).
        dispatcherCandidate.matchesCount a = dispatcherCandidate.nonDefaultCount a + 2
        \<and> (\<forall>b \<in> set (fst (detectDispatcher_loop requestPath dispatchers)).
             (dispatcherCandidate.matchesCount a = dispatcherCandidate.matchesCount b
                \<longrightarrow> dispatcherCandidate.nonDefaultCount a = dispatcherCandidate.nonDefaultCount b)
             \<and> (sortableCandidates_Less [a, b] 0 1 \<longleftrightarrow>
                  dispatcherCandidate.matchesCount b < dispatcherCandidate.matchesCount a
                  \<or> (dispatcherCandidate.matchesCount b = dispatcherCandidate.matchesCount a
                      \<and> dispatcherCandidate.literalCount b < dispatcherCandidate.literalCount a)))"
  proof (intro ballI conjI)
    fix a b
    assume a: "a \<in> set (fst (detectDispatcher_loop requestPath dispatchers))"
      and b: "b \<in> set (fst (detectDispatcher_loop requestPath dispatchers))"
    have ca: "dispatcherCandidate.matchesCount a = dispatcherCandidate.nonDefaultCount a + 2"
      using a by (rule disp_loop_counts)
    have cb: "dispatcherCandidate.matchesCount b = dispatcherCandidate.nonDefaultCount b + 2"
      using b by (rule disp_loop_counts)
    show "dispatcherCandidate.matchesCount a = dispatcherCandidate.nonDefaultCount a + 2" by (rule ca)
    show "dispatcherCandidate.matchesCount a = dispatcherCandidate.matchesCount b
                \<longrightarrow> dispatcherCandidate.nonDefaultCount a = dispatcherCandidate.nonDefaultCount b"
      using ca cb by simp
    show "sortableCandidates_Less [a, b] 0 1 \<longleftrightarrow>
                  dispatcherCandidate.matchesCount b < dispatcherCandidate.matchesCount a
                  \<or> (dispatcherCandidate.matchesCount b = dispatcherCandidate.matchesCount a
                      \<and> dispatcherCandidate.literalCount b < dispatcherCandidate.literalCount a)"
      unfolding disp_Less_pair using ca cb by auto
  qed
qed

text \<open>The template \<open>/a/{var}\<close>, and the candidates of two examples.\<close>

theorem C10_witness:
  "(\<exists>compiled. regexp_Compile ''/a/([^/]+?)(/.*)?'' = Inr compiled \<and> NumSubexp compiled = 2)
   \<and> map routeCandidate.matchesCount
         (fst (selectRoutes_loop (example_dispatcher ''/'' [''/a/{var}'', ''/a/b'']) ''/a/b'')) = [3, 2]
   \<and> map routeCandidate.nonDefaultCount
         (fst (selectRoutes_loop (example_dispatcher ''/'' [''/a/{var}'', ''/a/b'']) ''/a/b'')) = [1, 0]
   \<and> sortableRouteCandidates_Less
         (fst (selectRoutes_loop (example_dispatcher ''/'' [''/a/{var}'', ''/a/b'']) ''/a/b'')) 0 1
   \<and> sortableCandidates_Less
         (fst (detectDispatcher_loop ''/api/users/7''
                [example_dispatcher ''/api/users'' [], example_dispatcher ''/api'' []])) 0 1"
proof -
  let ?d = "example_dispatcher ''/'' [''/a/{var}'', ''/a/b'']"
  let ?ds = "[example_dispatcher ''/api/users'' [], example_dispatcher ''/api'' []]"
  let ?cv = "\<lparr>route = example_route ''/a/{var}'', regexpression = ''/a/([^/]+?)(/.*)?'',
              matchesCount = 3, literalCount = 1, nonDefaultCount = 1\<rparr>"
  let ?cl = "\<lparr>route = example_route ''/a/b'', regexpression = ''/a/b(/.*)?'',
              matchesCount = 2, literalCount = 2, nonDefaultCount = 0\<rparr>"
  let ?du = "\<lparr>dispatcher = example_dispatcher ''/api/users'' [], finalMatch = ''/7'',
              matchesCount = 2, literalCount = 8, nonDefaultCount = 0\<rparr>"
  let ?da = "\<lparr>dispatcher = example_dispatcher ''/api'' [], finalMatch = ''/users/7'',
              matchesCount = 2, literalCount = 3, nonDefaultCount = 0\<rparr>"
  have l: "fst (selectRoutes_loop ?d ''/a/b'') = [?cv, ?cl]"
    by (simp add: selectRoutes_loop_eq example_dispatcher_def cand_a_var cand_a_b example_route_def)
  have l': "fst (detectDispatcher_loop ''/api/users/7'' ?ds) = [?du, ?da]"
    by (simp add: detectDispatcher_loop_eq example_dispatcher_def dcand_api dcand_api_users)
  note C10 = C10_groups_and_tertiary_key[of "''/a/{var}''" ?d "''/a/b''" "''/api/users/7''" ?ds]
  note C10a = C10[THEN conjunct1]
  note C10a' = C10[THEN conjunct2, THEN conjunct1]
  note C10b = C10[THEN conjunct2, THEN conjunct2, THEN conjunct1, unfolded l]
  note C10c = C10[THEN conjunct2, THEN conjunct2, THEN conjunct2, unfolded l']
  have "utf8_ValidString (fst (templateToRegularExpression ''/a/{var}''))"
    by (simp add: tmpl_a_var)
  with C10a obtain compiled where
    c: "regexp_Compile (fst (templateToRegularExpression ''/a/{var}'')) = Inr compiled"
    by blast
  have "NumSubexp compiled = snd (snd (templateToRegularExpression ''/a/{var}'')) + 1"
    by (rule C10a'[THEN spec, THEN mp, OF c, THEN conjunct1])
  then have 1: "\<exists>compiled. regexp_Compile ''/a/([^/]+?)(/.*)?'' = Inr compiled \<and> NumSubexp compiled = 2"
    using c by (simp add: tmpl_a_var)
  have mv: "?cv \<in> set [?cv, ?cl]" and ml: "?cl \<in> set [?cv, ?cl]" by simp_all
  have "sortableRouteCandidates_Less [?cv, ?cl] 0 1 \<longleftrightarrow>
          routeCandidate.matchesCount ?cl < routeCandidate.matchesCount ?cv
          \<or> (routeCandidate.matchesCount ?cl = routeCandidate.matchesCount ?cv
              \<and> routeCandidate.literalCount ?cl < routeCandidate.literalCount ?cv)"
    by (rule bspec[OF bspec[OF C10b mv, THEN conjunct2] ml, THEN conjunct2])
  then have "sortableRouteCandidates_Less [?cv, ?cl] 0 1" by simp
  then have 2: "sortableRouteCandidates_Less (fst (selectRoutes_loop ?d ''/a/b'')) 0 1"
    unfolding l by (simp add: sortableRouteCandidates_Less_def)
  have mu: "?du \<in> set [?du, ?da]" and ma: "?da \<in> set [?du, ?da]" by simp_all
  have "sortableCandidates_Less [?du, ?da] 0 1 \<longleftrightarrow>
          dispatcherCandidate.matchesCount ?da < dispatcherCandidate.matchesCount ?du
          \<or> (dispatcherCandidate.matchesCount ?da = dispatcherCandidate.matchesCount ?du
              \<and> dispatcherCandidate.literalCount ?da < dispatcherCandidate.literalCount ?du)"
    by (rule bspec[OF bspec[OF C10c mu, THEN conjunct2] ma, THEN conjunct2])
  then have "sortableCandidates_Less [?du, ?da] 0 1" by simp
  then have 3: "sortableCandidates_Less (fst (detectDispatcher_loop ''/api/users/7'' ?ds)) 0 1"
    unfolding l' by (simp add: sortableCandidates_Less_def)
  show ?thesis using 1 2 3 by (simp add: l)
qed

end
